theory Spec2Isabelle
  imports Complex_Main "HOL-Library.Product_Lexorder"
begin

section \<open>Strings and numbers as the service writes them\<close>

text \<open>
  JavaScript renders an integer-valued number in a template string as its decimal
  digits, with a leading minus sign when negative. Strings are lists of characters.
\<close>

definition digit_chars :: string where
  "digit_chars = ''0123456789''"

function show_nat :: "nat \<Rightarrow> string" where
  "show_nat n = (if n < 10 then [digit_chars ! n]
                 else show_nat (n div 10) @ [digit_chars ! (n mod 10)])"
  by pat_completeness auto
termination
  by (relation "measure id") auto

declare show_nat.simps [simp del]

definition show_int :: "int \<Rightarrow> string" where
  "show_int i = (if i < 0 then CHR ''-'' # show_nat (nat (- i)) else show_nat (nat i))"

text \<open>
  \<open>raw.split("|")\<close>: the pieces between the separators; the result always has at
  least one piece (the whole string when there is no separator).
\<close>

fun split_on :: "char \<Rightarrow> string \<Rightarrow> string list" where
  "split_on c [] = [[]]"
| "split_on c (x # xs) =
     (if x = c then [] # split_on c xs
      else (case split_on c xs of
              [] \<Rightarrow> [[x]]
            | p # ps \<Rightarrow> (x # p) # ps))"

text \<open>The second piece of a destructured array, \<open>undefined\<close> when there is none.\<close>

definition second_piece :: "string list \<Rightarrow> string option" where
  "second_piece ps = (case ps of _ # b # _ \<Rightarrow> Some b | _ \<Rightarrow> None)"

text \<open>JavaScript truthiness of an optional string: absent and empty are both falsy.\<close>

definition truthy :: "string option \<Rightarrow> bool" where
  "truthy s = (case s of None \<Rightarrow> False | Some v \<Rightarrow> v \<noteq> [])"

section \<open>Data model\<close>

text \<open>
  An ObjectId is twelve bytes; MongoDB orders ObjectIds bytewise, which is the order
  of the numbers the bytes spell, so an ObjectId is modelled as that number. A
  \<open>Date\<close> is its number of milliseconds since the epoch.
\<close>

type_synonym objectId = nat

datatype contentType = Movie | TvShow

datatype visibility = Available | Unavailable | Removed

record snapshot_rec =
  title :: string
  posterUrl :: "string option"
  genres :: "string list option"
  shortDescription :: "string option"

record IMyListItem =
  item_id :: objectId
  userId :: objectId
  contentType :: contentType
  contentId :: objectId
  episodeId :: "objectId option"
  addedAt :: int
  snapshot :: snapshot_rec
  contentVisibility :: visibility

text \<open>
  The catalogue documents, with the fields the service reads. A movie and a show
  carry the same display fields; an episode names its show.
\<close>

record content_doc =
  doc_title :: string
  doc_posterUrl :: "string option"
  doc_genres :: "string list option"
  doc_description :: "string option"

record IEpisode =
  showId :: "objectId option"

record AddPayload =
  p_contentId :: string
  p_contentType :: contentType
  p_episodeId :: "string option"
  p_snapshot :: "snapshot_rec option"

record ListOptions =
  limit :: "int option"
  cursor :: "string option"
  opt_contentType :: "contentType option"

record payload =
  items :: "IMyListItem list"
  nextCursor :: "string option"
  total_count :: "nat option"

text \<open>
  The errors a call can end with: an \<open>HttpError\<close> (status, message, code), or any
  other exception, which the error handler answers with status 500.
\<close>

datatype error = HttpError nat string string | Exception string

definition errorHandler_status :: "error \<Rightarrow> nat" where
  "errorHandler_status e = (case e of HttpError s _ _ \<Rightarrow> s | Exception _ \<Rightarrow> 500)"

section \<open>The runtime library\<close>

text \<open>
  The service calls library functions that are not part of the repository: Node's
  \<open>Buffer\<close> for base64, \<open>Date\<close> for parsing and ISO formatting, and the driver's
  \<open>ObjectId\<close> for parsing and printing identifiers. They are parameters of the model.
  \<open>date_parse\<close> answers \<open>None\<close> where \<open>getTime()\<close> is \<open>NaN\<close>; \<open>oid_parse\<close> answers
  \<open>None\<close> where the constructor throws, and \<open>ObjectId.isValid\<close> holds of exactly the
  strings the constructor accepts.
\<close>

record runtime =
  base64_encode :: "string \<Rightarrow> string"
  base64_decode :: "string \<Rightarrow> string"
  date_toISOString :: "int \<Rightarrow> string"
  date_parse :: "string \<Rightarrow> int option"
  oid_toString :: "objectId \<Rightarrow> string"
  oid_parse :: "string \<Rightarrow> objectId option"

definition isValid :: "runtime \<Rightarrow> string \<Rightarrow> bool" where
  "isValid rt s = (oid_parse rt s \<noteq> None)"

section \<open>Redis\<close>

text \<open>
  The version counters and the cached pages live in Redis. A counter is kept as the
  integer its decimal string spells (only \<open>SETNX key "0"\<close> and \<open>INCR\<close> write it); a
  cached page is kept as the payload that \<open>JSON.stringify\<close> wrote and \<open>JSON.parse\<close>
  reads back. A key can carry a time to live, in seconds: a counter has one once
  \<open>EXPIRE\<close> has set it (\<open>SETNX\<close> and \<open>INCR\<close> create a key without, and \<open>INCR\<close> keeps
  the one of an existing key), a page always has the one it was written with. Every
  command can fail (connection error, timeout); \<open>fails\<close> says which commands on which
  keys do.
\<close>

datatype redis_cmd = GET | SETNX | SET_EX_NX | INCR | EXPIRE

record redis =
  versions :: "string \<Rightarrow> int option"
  version_ttl :: "string \<Rightarrow> int option"
  pages :: "string \<Rightarrow> payload option"
  page_ttl :: "string \<Rightarrow> int"
  fails :: "redis_cmd \<Rightarrow> string \<Rightarrow> bool"

definition redis_error :: error where
  "redis_error = Exception ''redis command failed''"

definition redis_get_version :: "redis \<Rightarrow> string \<Rightarrow> error + string option" where
  "redis_get_version r k =
     (if fails r GET k then Inl redis_error else Inr (map_option show_int (versions r k)))"

definition redis_setnx :: "redis \<Rightarrow> string \<Rightarrow> int \<Rightarrow> error + redis" where
  "redis_setnx r k v =
     (if fails r SETNX k then Inl redis_error
      else Inr (case versions r k of
                  None \<Rightarrow> r\<lparr>versions := (versions r)(k \<mapsto> v),
                             version_ttl := (version_ttl r)(k := None)\<rparr>
                | Some _ \<Rightarrow> r))"

definition redis_incr :: "redis \<Rightarrow> string \<Rightarrow> error + redis" where
  "redis_incr r k =
     (if fails r INCR k then Inl redis_error
      else Inr (case versions r k of
                  None \<Rightarrow> r\<lparr>versions := (versions r)(k \<mapsto> 1),
                             version_ttl := (version_ttl r)(k := None)\<rparr>
                | Some n \<Rightarrow> r\<lparr>versions := (versions r)(k \<mapsto> n + 1)\<rparr>))"

text \<open>
  \<open>EXPIRE key seconds\<close> gives an existing key the time to live (and deletes the key
  when the time is not positive); on an absent key it does nothing.
\<close>

definition redis_expire :: "redis \<Rightarrow> string \<Rightarrow> int \<Rightarrow> error + redis" where
  "redis_expire r k secs =
     (if fails r EXPIRE k then Inl redis_error
      else Inr (case versions r k of
                  None \<Rightarrow> r
                | Some _ \<Rightarrow>
                    (if secs \<le> 0
                     then r\<lparr>versions := (versions r)(k := None),
                            version_ttl := (version_ttl r)(k := None)\<rparr>
                     else r\<lparr>version_ttl := (version_ttl r)(k \<mapsto> secs)\<rparr>)))"

definition redis_get_page :: "redis \<Rightarrow> string \<Rightarrow> error + payload option" where
  "redis_get_page r k = (if fails r GET k then Inl redis_error else Inr (pages r k))"

text \<open>
  \<open>SET key value EX seconds NX\<close>: Redis refuses a time to live that is not positive;
  otherwise the value is written, with the time to live, when the key holds none.
\<close>

definition redis_set_ex_nx :: "redis \<Rightarrow> string \<Rightarrow> payload \<Rightarrow> int \<Rightarrow> error + redis" where
  "redis_set_ex_nx r k p secs =
     (if fails r SET_EX_NX k \<or> secs \<le> 0 then Inl redis_error
      else Inr (case pages r k of
                  None \<Rightarrow> r\<lparr>pages := (pages r)(k \<mapsto> p), page_ttl := (page_ttl r)(k := secs)\<rparr>
                | Some _ \<Rightarrow> r))"

text \<open>
  The passing of \<open>d\<close> seconds: a key whose time to live has run out is gone, the other
  keys have that much less left.
\<close>

definition elapse :: "int \<Rightarrow> redis \<Rightarrow> redis" where
  "elapse d r =
     r\<lparr>versions := (\<lambda>k. case version_ttl r k of
                           None \<Rightarrow> versions r k
                         | Some t \<Rightarrow> (if t \<le> d then None else versions r k)),
       version_ttl := (\<lambda>k. case version_ttl r k of
                              None \<Rightarrow> None
                            | Some t \<Rightarrow> (if t \<le> d then None else Some (t - d))),
       pages := (\<lambda>k. if page_ttl r k \<le> d then None else pages r k),
       page_ttl := (\<lambda>k. page_ttl r k - d)\<rparr>"

subsection \<open>Cache keys (myList.cache.ts)\<close>

definition userVersionKey :: "string \<Rightarrow> string" where
  "userVersionKey uid = ''mylist:'' @ uid @ '':version''"

definition pageCacheKey :: "string \<Rightarrow> string \<Rightarrow> int \<Rightarrow> string option \<Rightarrow> string" where
  "pageCacheKey uid version lmt cur =
     (let cursorKey = (if truthy cur then the cur else ''start'')
      in ''mylist:'' @ uid @ '':v'' @ version @ '':limit'' @ show_int lmt @ '':cursor'' @ cursorKey)"

text \<open>
  \<open>bumpUserVersion\<close>: increment, then refresh the expiry of thirty days; a failure of
  either is logged and swallowed.
\<close>

definition bumpUserVersion :: "redis \<Rightarrow> string \<Rightarrow> redis" where
  "bumpUserVersion r uid =
     (let versionKey = userVersionKey uid in
      case redis_incr r versionKey of
        Inl _ \<Rightarrow> r
      | Inr r1 \<Rightarrow>
          (case redis_expire r1 versionKey (60 * 60 * 24 * 30) of Inl _ \<Rightarrow> r1 | Inr r2 \<Rightarrow> r2))"

section \<open>The collections\<close>

text \<open>
  The state the service works on: the \<open>MyListItem\<close> collection (in insertion order),
  the catalogue collections it only reads, and Redis. The store itself is taken to
  answer every query; only what Mongoose and the unique indexes reject is an error.
\<close>

record world =
  mylist :: "IMyListItem list"
  users :: "objectId set"
  movies :: "objectId \<Rightarrow> content_doc option"
  tvshows :: "objectId \<Rightarrow> content_doc option"
  episodes :: "objectId \<Rightarrow> IEpisode option"
  cache :: redis

text \<open>
  \<open>MyListItemModel.create(doc)\<close>: Mongoose validates the document first (the schema
  requires \<open>snapshot.title\<close>, and the required validator of a string refuses the empty
  string); then the insert is refused with code 11000 when the unique index on
  \<open>(userId, contentId)\<close>, or the one on \<open>_id\<close>, already holds the key.
\<close>

datatype create_outcome = Created | DuplicateKey | ValidationError

definition same_pair :: "objectId \<Rightarrow> objectId \<Rightarrow> IMyListItem \<Rightarrow> bool" where
  "same_pair u c x = (userId x = u \<and> contentId x = c)"

definition create_check :: "IMyListItem list \<Rightarrow> IMyListItem \<Rightarrow> create_outcome" where
  "create_check db doc =
     (if title (snapshot doc) = [] then ValidationError
      else if list_ex (same_pair (userId doc) (contentId doc)) db
              \<or> list_ex (\<lambda>x. item_id x = item_id doc) db then DuplicateKey
      else Created)"

definition findOne :: "IMyListItem list \<Rightarrow> objectId \<Rightarrow> objectId \<Rightarrow> IMyListItem option" where
  "findOne db u c = find (same_pair u c) db"

definition countDocuments :: "IMyListItem list \<Rightarrow> objectId \<Rightarrow> nat" where
  "countDocuments db u = length (filter (\<lambda>x. userId x = u) db)"

text \<open>
  \<open>find(query).sort({addedAt: -1, _id: -1}).limit(n)\<close>. The query selects the user's
  items, of the content type when one is given, and strictly before the cursor
  position when one is given. A limit of zero means no limit to MongoDB, and a
  negative one its absolute value.
\<close>

definition ordering_key :: "IMyListItem \<Rightarrow> int \<times> objectId" where
  "ordering_key x = (addedAt x, item_id x)"

definition matches_query ::
    "objectId \<Rightarrow> contentType option \<Rightarrow> (int \<times> objectId) option \<Rightarrow> IMyListItem \<Rightarrow> bool" where
  "matches_query u ct cur x =
     (userId x = u
      \<and> (case ct of None \<Rightarrow> True | Some t \<Rightarrow> contentType x = t)
      \<and> (case cur of None \<Rightarrow> True
          | Some (ts, i) \<Rightarrow> addedAt x < ts \<or> (addedAt x = ts \<and> item_id x < i)))"

definition mongo_limit :: "int \<Rightarrow> 'a list \<Rightarrow> 'a list" where
  "mongo_limit n xs = (if n = 0 then xs else take (nat \<bar>n\<bar>) xs)"

definition find_sorted ::
    "IMyListItem list \<Rightarrow> objectId \<Rightarrow> contentType option \<Rightarrow> (int \<times> objectId) option
      \<Rightarrow> IMyListItem list" where
  "find_sorted db u ct cur = rev (sort_key ordering_key (filter (matches_query u ct cur) db))"

section \<open>The service (myList.service.ts)\<close>

record config =
  PAGE_TTL_SECONDS :: int
  MAX_LIMIT :: int
  DEFAULT_LIMIT :: int

definition default_config :: config where
  "default_config = \<lparr>PAGE_TTL_SECONDS = 60, MAX_LIMIT = 100, DEFAULT_LIMIT = 20\<rparr>"

subsection \<open>addToList\<close>

definition snapshot_of :: "content_doc \<Rightarrow> snapshot_rec" where
  "snapshot_of d =
     \<lparr>title = doc_title d,
      posterUrl = doc_posterUrl d,
      genres = Some (case doc_genres d of None \<Rightarrow> [] | Some g \<Rightarrow> g),
      shortDescription = Some (case doc_description d of None \<Rightarrow> [] | Some s \<Rightarrow> s)\<rparr>"

text \<open>
  The branch on the content type: the content must exist; a movie must not come with
  an episode; an episode given for a show must exist and name that show. The result
  is the snapshot to store (the caller's, or one built from the content).
\<close>

definition resolve_content ::
    "world \<Rightarrow> AddPayload \<Rightarrow> objectId \<Rightarrow> objectId option \<Rightarrow> error + snapshot_rec" where
  "resolve_content w pl contentOid episodeOid =
     (case p_contentType pl of
        Movie \<Rightarrow>
          (case movies w contentOid of
             None \<Rightarrow> Inl (HttpError 404 ''movie not found'' ''CONTENT_NOT_FOUND'')
           | Some movie \<Rightarrow>
               (if episodeOid \<noteq> None
                then Inl (HttpError 400 ''episodeId provided for movie contentType''
                            ''INVALID_PAYLOAD'')
                else Inr (case p_snapshot pl of None \<Rightarrow> snapshot_of movie | Some s \<Rightarrow> s)))
      | TvShow \<Rightarrow>
          (case tvshows w contentOid of
             None \<Rightarrow> Inl (HttpError 404 ''tv show not found'' ''CONTENT_NOT_FOUND'')
           | Some show \<Rightarrow>
               (let snap = (case p_snapshot pl of None \<Rightarrow> snapshot_of show | Some s \<Rightarrow> s) in
                case episodeOid of
                  None \<Rightarrow> Inr snap
                | Some e \<Rightarrow>
                    (case episodes w e of
                       None \<Rightarrow> Inl (HttpError 404 ''episode not found'' ''EPISODE_NOT_FOUND'')
                     | Some episode \<Rightarrow>
                         (if showId episode = None \<or> showId episode \<noteq> Some contentOid
                          then Inl (HttpError 400
                                      ''episode does not belong to provided tv show''
                                      ''EPISODE_MISMATCH'')
                          else Inr snap)))))"

text \<open>
  The insert and what follows it. On a duplicate key the existing record of the pair
  is fetched and returned; the version is bumped on both paths.
\<close>

definition insert_item :: "world \<Rightarrow> string \<Rightarrow> IMyListItem \<Rightarrow> (error + IMyListItem) \<times> world" where
  "insert_item w uid doc =
     (case create_check (mylist w) doc of
        Created \<Rightarrow>
          (Inr doc, w\<lparr>mylist := mylist w @ [doc], cache := bumpUserVersion (cache w) uid\<rparr>)
      | DuplicateKey \<Rightarrow>
          (case findOne (mylist w) (userId doc) (contentId doc) of
             Some existing \<Rightarrow> (Inr existing, w\<lparr>cache := bumpUserVersion (cache w) uid\<rparr>)
           | None \<Rightarrow>
               (Inl (HttpError 500 ''duplicate key but fetch failed'' ''INTERNAL_ERROR''), w))
      | ValidationError \<Rightarrow>
          (Inl (HttpError 500 ''failed to add item to list'' ''INTERNAL_ERROR''), w))"

text \<open>
  \<open>addToList\<close>. The time \<open>now\<close> of \<open>new Date()\<close> and the \<open>_id\<close> the driver generates
  for the new document are inputs.
\<close>

definition addToList ::
    "runtime \<Rightarrow> world \<Rightarrow> string \<Rightarrow> AddPayload \<Rightarrow> int \<Rightarrow> objectId
      \<Rightarrow> (error + IMyListItem) \<times> world" where
  "addToList rt w uid pl now newId =
     (case oid_parse rt uid of
        None \<Rightarrow> (Inl (HttpError 400 ''invalid userId'' ''INVALID_USER_ID''), w)
      | Some userOid \<Rightarrow>
     (case oid_parse rt (p_contentId pl) of
        None \<Rightarrow> (Inl (HttpError 400 ''invalid contentId'' ''INVALID_CONTENT_ID''), w)
      | Some contentOid \<Rightarrow>
     (if truthy (p_episodeId pl) \<and> \<not> isValid rt (the (p_episodeId pl))
      then (Inl (HttpError 400 ''invalid episodeId'' ''INVALID_EPISODE_ID''), w)
      else
        (let episodeOid =
               (if truthy (p_episodeId pl) then oid_parse rt (the (p_episodeId pl)) else None)
         in if userOid \<notin> users w
            then (Inl (HttpError 404 ''user not found'' ''USER_NOT_FOUND''), w)
            else
              (case resolve_content w pl contentOid episodeOid of
                 Inl e \<Rightarrow> (Inl e, w)
               | Inr snap \<Rightarrow>
                   insert_item w uid
                     \<lparr>item_id = newId, userId = userOid, contentType = p_contentType pl,
                      contentId = contentOid, episodeId = episodeOid, addedAt = now,
                      snapshot = snap, contentVisibility = Available\<rparr>)))))"

subsection \<open>removeFromList\<close>

text \<open>
  \<open>findOneAndDelete\<close> answers the deleted record, or null when none matches. A string
  the \<open>ObjectId\<close> constructor refuses makes it throw inside the \<open>try\<close>, which is
  answered with status 500.
\<close>

definition remove_failed :: error where
  "remove_failed = HttpError 500 ''failed to remove item from list'' ''INTERNAL_ERROR''"

definition removeFromList ::
    "runtime \<Rightarrow> world \<Rightarrow> string \<Rightarrow> string \<Rightarrow> (error + IMyListItem option) \<times> world" where
  "removeFromList rt w uid cid =
     (case oid_parse rt uid of
        None \<Rightarrow> (Inl remove_failed, w)
      | Some userOid \<Rightarrow>
     (case oid_parse rt cid of
        None \<Rightarrow> (Inl remove_failed, w)
      | Some contentOid \<Rightarrow>
     (case findOne (mylist w) userOid contentOid of
        None \<Rightarrow> (Inr None, w)
      | Some res \<Rightarrow>
          (Inr (Some res),
           w\<lparr>mylist := remove1 res (mylist w), cache := bumpUserVersion (cache w) uid\<rparr>))))"

subsection \<open>The cursor\<close>

definition invalid_cursor :: error where
  "invalid_cursor = HttpError 400 ''Invalid cursor'' ''INVALID_CURSOR''"

text \<open>
  \<open>decodeCursorSafe\<close>: every exception inside is caught and answered with the one
  \<open>HttpError\<close>.
\<close>

definition decodeCursorSafe :: "runtime \<Rightarrow> string \<Rightarrow> error + (int \<times> objectId)" where
  "decodeCursorSafe rt cur =
     (let raw = base64_decode rt cur;
          parts = split_on CHR ''|'' raw;
          addedAtStr = hd parts;
          idStr = second_piece parts
      in if addedAtStr = [] \<or> \<not> truthy idStr then Inl invalid_cursor
         else (case date_parse rt addedAtStr of
                 None \<Rightarrow> Inl invalid_cursor
               | Some ts \<Rightarrow>
                   (case oid_parse rt (the idStr) of
                      None \<Rightarrow> Inl invalid_cursor
                    | Some i \<Rightarrow> Inr (ts, i))))"

text \<open>The token \<open>getList\<close> writes for the last item of a page.\<close>

definition encodeCursor :: "runtime \<Rightarrow> int \<Rightarrow> objectId \<Rightarrow> string" where
  "encodeCursor rt ts i =
     base64_encode rt (date_toISOString rt ts @ ''|'' @ oid_toString rt i)"

subsection \<open>getList\<close>

text \<open>
  \<open>Math.min(opts.limit ?? DEFAULT_LIMIT, MAX_LIMIT)\<close>, over any ordered number type.
\<close>

definition clampLimit :: "'a::linorder \<Rightarrow> 'a \<Rightarrow> 'a option \<Rightarrow> 'a" where
  "clampLimit dflt mx l = min (case l of None \<Rightarrow> dflt | Some v \<Rightarrow> v) mx"

text \<open>
  What \<open>getList\<close> makes of the documents the query returned. When there are more than
  \<open>limit\<close>, the cursor is written from \<open>docs[limit - 1]\<close> and the list is cut to
  \<open>limit\<close>; for a limit below one that element is \<open>undefined\<close> and reading its
  \<open>addedAt\<close> throws.
\<close>

definition page_of_docs ::
    "runtime \<Rightarrow> int \<Rightarrow> IMyListItem list \<Rightarrow> error + (IMyListItem list \<times> string option)" where
  "page_of_docs rt lmt docs =
     (if int (length docs) > lmt
      then (if 1 \<le> lmt
            then (let last_doc = docs ! nat (lmt - 1)
                  in Inr (take (nat lmt) docs,
                          Some (encodeCursor rt (addedAt last_doc) (item_id last_doc))))
            else Inl (Exception ''TypeError: cannot read properties of undefined''))
      else Inr (docs, None))"

text \<open>
  The read of the store, from the decoding of the cursor (when one is given) to the
  payload. The limit of \<open>getList\<close> is an integer here; a fractional one is outside
  this model of the query.
\<close>

definition cursor_position :: "runtime \<Rightarrow> string option \<Rightarrow> error + (int \<times> objectId) option" where
  "cursor_position rt cur =
     (if truthy cur then map_sum id Some (decodeCursorSafe rt (the cur)) else Inr None)"

definition read_store ::
    "runtime \<Rightarrow> IMyListItem list \<Rightarrow> objectId \<Rightarrow> ListOptions \<Rightarrow> int \<Rightarrow> bool
      \<Rightarrow> error + payload" where
  "read_store rt db userOid opts lmt includeTotal =
     (case cursor_position rt (cursor opts) of
        Inl e \<Rightarrow> Inl e
      | Inr cur \<Rightarrow>
          (case page_of_docs rt lmt
                  (mongo_limit (lmt + 1) (find_sorted db userOid (opt_contentType opts) cur)) of
             Inl e \<Rightarrow> Inl e
           | Inr (docs, next) \<Rightarrow>
               Inr \<lparr>items = docs, nextCursor = next,
                    total_count =
                      (if includeTotal then Some (countDocuments db userOid) else None)\<rparr>))"

text \<open>
  \<open>getList\<close>. The two reads of the version key stand outside any \<open>try\<close>; the read and
  the write of the page stand inside one each.
\<close>

definition getList ::
    "runtime \<Rightarrow> config \<Rightarrow> world \<Rightarrow> string \<Rightarrow> ListOptions \<Rightarrow> bool
      \<Rightarrow> (error + payload) \<times> world" where
  "getList rt cfg w uid opts includeTotal =
     (let lmt = clampLimit (DEFAULT_LIMIT cfg) (MAX_LIMIT cfg) (limit opts) in
      case oid_parse rt uid of
        None \<Rightarrow> (Inl (Exception ''invalid userId''), w)
      | Some userOid \<Rightarrow>
     (let versionKey = userVersionKey uid in
      case redis_get_version (cache w) versionKey of
        Inl e \<Rightarrow> (Inl e, w)
      | Inr v \<Rightarrow>
     (case (if truthy v then Inr (the v, cache w)
            else map_sum id (Pair ''0'') (redis_setnx (cache w) versionKey 0)) of
        Inl e \<Rightarrow> (Inl e, w)
      | Inr (version, r1) \<Rightarrow>
     (let cacheKey = pageCacheKey uid version lmt (cursor opts);
          cached = (case redis_get_page r1 cacheKey of Inl _ \<Rightarrow> None | Inr c \<Rightarrow> c)
      in case cached of
           Some p \<Rightarrow> (Inr p, w\<lparr>cache := r1\<rparr>)
         | None \<Rightarrow>
             (case read_store rt (mylist w) userOid opts lmt includeTotal of
                Inl e \<Rightarrow> (Inl e, w\<lparr>cache := r1\<rparr>)
              | Inr p \<Rightarrow>
                  (Inr p,
                   w\<lparr>cache := (case redis_set_ex_nx r1 cacheKey p (PAGE_TTL_SECONDS cfg) of
                                  Inl _ \<Rightarrow> r1
                                | Inr r2 \<Rightarrow> r2)\<rparr>))))))"

section \<open>The controller (myList.controller.ts, pagination.ts)\<close>

text \<open>
  A JavaScript number is a finite value, \<open>NaN\<close> or an infinity; comparison and
  \<open>Math.min\<close> of finite values are exact, so a finite value is a rational here.
  \<open>toNumberOrDefault\<close> is given the value of \<open>Number(v)\<close>.
\<close>

datatype jsnumber = Finite rat | NaN | PosInfinity | NegInfinity

definition toNumberOrDefault :: "jsnumber \<Rightarrow> rat \<Rightarrow> rat" where
  "toNumberOrDefault n d =
     (case n of Finite q \<Rightarrow> (if q > 0 then q else d) | _ \<Rightarrow> d)"

text \<open>
  The limit \<open>getList\<close> works with when \<open>listItems\<close> calls it: \<open>listItems\<close> passes
  \<open>toNumberOrDefault(req.query.limit, 20)\<close>, and \<open>getList\<close> takes the minimum with
  \<open>MAX_LIMIT\<close>.
\<close>

definition listItems_limit :: "config \<Rightarrow> jsnumber \<Rightarrow> rat" where
  "listItems_limit cfg n =
     clampLimit (of_int (DEFAULT_LIMIT cfg)) (of_int (MAX_LIMIT cfg))
       (Some (toNumberOrDefault n 20))"

text \<open>The status \<open>removeItem\<close> answers with when the service returns.\<close>

definition removeItem_status :: "IMyListItem option \<Rightarrow> nat" where
  "removeItem_status removed = (case removed of None \<Rightarrow> 404 | Some _ \<Rightarrow> 200)"

section \<open>An instance of the runtime library\<close>

text \<open>
  The library functions as Node and the driver compute them on ASCII text: standard
  base64 (the decoder skips characters outside the alphabet and stops at the padding,
  as Node's does), the 24-character format that \<open>toISOString\<close> writes for the years
  0 to 9999 (this instance reads no other date format), and ObjectIds as 24
  hexadecimal digits. The instance is what the properties are evaluated with at
  concrete inputs, and it is shown below to keep the contract that the cursor codec
  relies on.
\<close>

definition digit_value :: "char \<Rightarrow> nat option" where
  "digit_value c =
     (if 48 \<le> (of_char c :: nat) \<and> (of_char c :: nat) \<le> 57 then Some (of_char c - 48) else None)"

definition hex_value :: "char \<Rightarrow> nat option" where
  "hex_value c =
     (if 48 \<le> (of_char c :: nat) \<and> (of_char c :: nat) \<le> 57 then Some (of_char c - 48)
      else if 97 \<le> (of_char c :: nat) \<and> (of_char c :: nat) \<le> 102 then Some (of_char c - 87)
      else if 65 \<le> (of_char c :: nat) \<and> (of_char c :: nat) \<le> 70 then Some (of_char c - 55)
      else None)"

fun read_from :: "(char \<Rightarrow> nat option) \<Rightarrow> nat \<Rightarrow> nat \<Rightarrow> string \<Rightarrow> nat option" where
  "read_from val base acc [] = Some acc"
| "read_from val base acc (c # cs) =
     (case val c of
        None \<Rightarrow> None
      | Some d \<Rightarrow> read_from val base (acc * base + d) cs)"

definition read_decimal :: "string \<Rightarrow> nat option" where
  "read_decimal s = (if s = [] then None else read_from digit_value 10 0 s)"

definition read_hex :: "string \<Rightarrow> nat option" where
  "read_hex s = (if s = [] then None else read_from hex_value 16 0 s)"

definition pad :: "nat \<Rightarrow> nat \<Rightarrow> string" where
  "pad k n = replicate (k - length (show_nat n)) CHR ''0'' @ show_nat n"

definition b64_chars :: string where
  "b64_chars = ''ABCDEFGHIJKLMNOPQRSTUVWXYZabcdefghijklmnopqrstuvwxyz0123456789+/''"

fun b64_encode_bytes :: "nat list \<Rightarrow> string" where
  "b64_encode_bytes (a # b # c # rest) =
     [b64_chars ! (a div 4), b64_chars ! ((a mod 4) * 16 + b div 16),
      b64_chars ! ((b mod 16) * 4 + c div 64), b64_chars ! (c mod 64)] @ b64_encode_bytes rest"
| "b64_encode_bytes [a, b] =
     [b64_chars ! (a div 4), b64_chars ! ((a mod 4) * 16 + b div 16),
      b64_chars ! ((b mod 16) * 4), CHR ''='']"
| "b64_encode_bytes [a] =
     [b64_chars ! (a div 4), b64_chars ! ((a mod 4) * 16), CHR ''='', CHR ''='']"
| "b64_encode_bytes [] = []"

definition b64_value :: "char \<Rightarrow> nat option" where
  "b64_value c =
     (if 65 \<le> (of_char c :: nat) \<and> (of_char c :: nat) \<le> 90 then Some (of_char c - 65)
      else if 97 \<le> (of_char c :: nat) \<and> (of_char c :: nat) \<le> 122 then Some (of_char c - 71)
      else if 48 \<le> (of_char c :: nat) \<and> (of_char c :: nat) \<le> 57 then Some (of_char c + 4)
      else if c = CHR ''+'' \<or> c = CHR ''-'' then Some 62
      else if c = CHR ''/'' \<or> c = CHR ''_'' then Some 63
      else None)"

fun b64_values :: "string \<Rightarrow> nat list" where
  "b64_values [] = []"
| "b64_values (c # cs) =
     (if c = CHR ''='' then []
      else (case b64_value c of None \<Rightarrow> b64_values cs | Some v \<Rightarrow> v # b64_values cs))"

fun b64_decode_values :: "nat list \<Rightarrow> nat list" where
  "b64_decode_values (a # b # c # d # rest) =
     [a * 4 + b div 16, (b mod 16) * 16 + c div 4, (c mod 4) * 64 + d] @ b64_decode_values rest"
| "b64_decode_values [a, b, c] = [a * 4 + b div 16, (b mod 16) * 16 + c div 4]"
| "b64_decode_values [a, b] = [a * 4 + b div 16]"
| "b64_decode_values _ = []"

definition node_base64_encode :: "string \<Rightarrow> string" where
  "node_base64_encode s = b64_encode_bytes (map of_char s)"

definition node_base64_decode :: "string \<Rightarrow> string" where
  "node_base64_decode s = map char_of (b64_decode_values (b64_values s))"

text \<open>
  The calendar counts days from the first of March of the year 0, so that the leap
  day is the last day of a year: \<open>days_before_year y\<close> days lie before the March
  year \<open>y\<close>, and the year of a day is found by walking up from a lower estimate.
\<close>

definition days_before_year :: "int \<Rightarrow> int" where
  "days_before_year y = 365 * y + y div 4 - y div 100 + y div 400"

fun year_search :: "nat \<Rightarrow> int \<Rightarrow> int \<Rightarrow> int" where
  "year_search 0 n y = y"
| "year_search (Suc f) n y =
     (if days_before_year (y + 1) \<le> n then year_search f n (y + 1) else y)"

definition march_year :: "int \<Rightarrow> int" where
  "march_year n =
     year_search (nat (max (n div 365) (n div 366) - min (n div 365) (n div 366))) n
       (min (n div 365) (n div 366))"

definition month_offset :: "int \<Rightarrow> int" where
  "month_offset mp = (153 * mp + 2) div 5"

definition month_index :: "int \<Rightarrow> int" where
  "month_index doy = (5 * doy + 2) div 153"

definition civil_from_days :: "int \<Rightarrow> int \<times> nat \<times> nat" where
  "civil_from_days z =
     (let n = z + 719468;
          y = march_year n;
          doy = n - days_before_year y;
          mp = month_index doy;
          m = (if mp < 10 then mp + 3 else mp - 9)
      in (y + (if m \<le> 2 then 1 else 0), nat m, nat (doy - month_offset mp + 1)))"

definition days_from_civil :: "int \<Rightarrow> nat \<Rightarrow> nat \<Rightarrow> int" where
  "days_from_civil y m d =
     days_before_year (if m \<le> 2 then y - 1 else y)
       + month_offset (if m > 2 then int m - 3 else int m + 9) + int d - 1 - 719468"

definition show_year :: "int \<Rightarrow> string" where
  "show_year y =
     (if 0 \<le> y \<and> y \<le> 9999 then pad 4 (nat y)
      else (if y < 0 then CHR ''-'' else CHR ''+'') # pad 6 (nat \<bar>y\<bar>))"

definition show_time :: "int \<Rightarrow> string" where
  "show_time r =
     pad 2 (nat (r div 3600000)) @ '':'' @ pad 2 (nat (r div 60000 mod 60)) @ '':''
       @ pad 2 (nat (r div 1000 mod 60)) @ ''.'' @ pad 3 (nat (r mod 1000))"

definition node_toISOString :: "int \<Rightarrow> string" where
  "node_toISOString t =
     (case civil_from_days (t div 86400000) of
        (y, m, d) \<Rightarrow>
          show_year y @ ''-'' @ pad 2 m @ ''-'' @ pad 2 d @ ''T''
            @ show_time (t mod 86400000) @ ''Z'')"

text \<open>
  The parser takes any day from 1 to 31 in any month (a day past the end of the month
  runs into the next one) and the hour 24 only as 24:00:00.000.
\<close>

definition make_time :: "nat \<Rightarrow> nat \<Rightarrow> nat \<Rightarrow> nat \<Rightarrow> nat \<Rightarrow> nat \<Rightarrow> nat \<Rightarrow> int option" where
  "make_time y m d h mi sec ms =
     (if 1 \<le> m \<and> m \<le> 12 \<and> 1 \<le> d \<and> d \<le> 31
         \<and> (h \<le> 23 \<and> mi \<le> 59 \<and> sec \<le> 59 \<or> h = 24 \<and> mi = 0 \<and> sec = 0 \<and> ms = 0)
      then Some (days_from_civil (int y) m d * 86400000
                 + (int h * 3600000 + int mi * 60000 + int sec * 1000 + int ms))
      else None)"

definition iso_shape :: "string \<Rightarrow> bool" where
  "iso_shape s =
     (length s = 24 \<and> s ! 4 = CHR ''-'' \<and> s ! 7 = CHR ''-'' \<and> s ! 10 = CHR ''T''
      \<and> s ! 13 = CHR '':'' \<and> s ! 16 = CHR '':'' \<and> s ! 19 = CHR ''.'' \<and> s ! 23 = CHR ''Z'')"

definition node_date_parse :: "string \<Rightarrow> int option" where
  "node_date_parse s =
     (if iso_shape s then
        (case read_decimal (take 4 s) of None \<Rightarrow> None | Some y \<Rightarrow>
        (case read_decimal (take 2 (drop 5 s)) of None \<Rightarrow> None | Some m \<Rightarrow>
        (case read_decimal (take 2 (drop 8 s)) of None \<Rightarrow> None | Some d \<Rightarrow>
        (case read_decimal (take 2 (drop 11 s)) of None \<Rightarrow> None | Some h \<Rightarrow>
        (case read_decimal (take 2 (drop 14 s)) of None \<Rightarrow> None | Some mi \<Rightarrow>
        (case read_decimal (take 2 (drop 17 s)) of None \<Rightarrow> None | Some sec \<Rightarrow>
        (case read_decimal (take 3 (drop 20 s)) of None \<Rightarrow> None | Some ms \<Rightarrow>
           make_time y m d h mi sec ms)))))))
      else None)"

definition hex_chars :: string where
  "hex_chars = ''0123456789abcdef''"

function show_hex :: "nat \<Rightarrow> string" where
  "show_hex n = (if n < 16 then [hex_chars ! n]
                 else show_hex (n div 16) @ [hex_chars ! (n mod 16)])"
  by pat_completeness auto
termination
  by (relation "measure id") auto

declare show_hex.simps [simp del]

definition node_oid_toString :: "objectId \<Rightarrow> string" where
  "node_oid_toString n = replicate (24 - length (show_hex n)) CHR ''0'' @ show_hex n"

definition node_oid_parse :: "string \<Rightarrow> objectId option" where
  "node_oid_parse s = (if length s = 24 then read_hex s else None)"

definition node_runtime :: runtime where
  "node_runtime =
     \<lparr>base64_encode = node_base64_encode, base64_decode = node_base64_decode,
      date_toISOString = node_toISOString, date_parse = node_date_parse,
      oid_toString = node_oid_toString, oid_parse = node_oid_parse\<rparr>"

section \<open>A small catalogue\<close>

text \<open>
  One user, two movies, two shows with an episode each, an empty list and an empty,
  working Redis.
\<close>

definition no_failures :: "redis_cmd \<Rightarrow> string \<Rightarrow> bool" where
  "no_failures c k = False"

definition empty_redis :: redis where
  "empty_redis =
     \<lparr>versions = (\<lambda>k. None), version_ttl = (\<lambda>k. None), pages = (\<lambda>k. None),
      page_ttl = (\<lambda>k. 0), fails = no_failures\<rparr>"

definition doc_named :: "string \<Rightarrow> content_doc" where
  "doc_named t = \<lparr>doc_title = t, doc_posterUrl = None, doc_genres = None, doc_description = None\<rparr>"

definition sample_world :: world where
  "sample_world =
     \<lparr>mylist = [],
      users = {1},
      movies = (\<lambda>i. if i = 10 then Some (doc_named ''Inception'')
                     else if i = 11 then Some (doc_named ''Heat'') else None),
      tvshows = (\<lambda>i. if i = 20 then Some (doc_named ''Dark'')
                      else if i = 21 then Some (doc_named ''Lost'') else None),
      episodes = (\<lambda>i. if i = 30 then Some \<lparr>showId = Some 20\<rparr>
                       else if i = 31 then Some \<lparr>showId = Some 21\<rparr> else None),
      cache = empty_redis\<rparr>"

definition oid_text :: "nat \<Rightarrow> string" where
  "oid_text n = node_oid_toString n"

definition movie_payload :: "nat \<Rightarrow> AddPayload" where
  "movie_payload c =
     \<lparr>p_contentId = oid_text c, p_contentType = Movie, p_episodeId = None, p_snapshot = None\<rparr>"

definition show_payload :: "nat \<Rightarrow> nat option \<Rightarrow> AddPayload" where
  "show_payload c e =
     \<lparr>p_contentId = oid_text c, p_contentType = TvShow, p_episodeId = map_option oid_text e,
      p_snapshot = None\<rparr>"

definition list_options :: "int option \<Rightarrow> string option \<Rightarrow> contentType option \<Rightarrow> ListOptions" where
  "list_options l c t = \<lparr>limit = l, cursor = c, opt_contentType = t\<rparr>"

text \<open>The HTTP taxonomy of the specification, read off the status of an error.\<close>

datatype error_kind = BadRequest | NotFound | Conflict | InternalError

definition spec_error_kind :: "error \<Rightarrow> error_kind" where
  "spec_error_kind e =
     (if errorHandler_status e = 400 then BadRequest
      else if errorHandler_status e = 404 then NotFound
      else if errorHandler_status e = 409 then Conflict
      else InternalError)"


text \<open>The sample world after the user has added the movie 10, and then the show 20.\<close>

definition world_one :: world where
  "world_one =
     snd (addToList node_runtime sample_world (oid_text 1) (movie_payload 10) 1704067200000 100)"

definition world_two :: world where
  "world_two =
     snd (addToList node_runtime world_one (oid_text 1) (show_payload 20 None) 1704067200000 101)"

text \<open>A Redis in which every command fails.\<close>

definition redis_down :: redis where
  "redis_down = empty_redis\<lparr>fails := (\<lambda>c k. True)\<rparr>"

definition first_item :: IMyListItem where
  "first_item =
     \<lparr>item_id = 100, userId = 1, contentType = Movie, contentId = 10, episodeId = None,
      addedAt = 1704067200000,
      snapshot = \<lparr>title = ''Inception'', posterUrl = None, genres = Some [],
                  shortDescription = Some []\<rparr>,
      contentVisibility = Available\<rparr>"

definition world_cache_down :: world where
  "world_cache_down = sample_world\<lparr>cache := redis_down\<rparr>"

text \<open>
  The version \<open>getList\<close> works with in a Redis state (an absent counter reads as
  \<open>"0"\<close>), the key under which it looks a request up, the Redis state after it has
  initialised an absent counter, and after the write-once store of a page.
\<close>

definition current_version :: "redis \<Rightarrow> string \<Rightarrow> int" where
  "current_version r uid = (case versions r (userVersionKey uid) of None \<Rightarrow> 0 | Some n \<Rightarrow> n)"

definition request_key :: "config \<Rightarrow> redis \<Rightarrow> string \<Rightarrow> ListOptions \<Rightarrow> string" where
  "request_key cfg r uid opts =
     pageCacheKey uid (show_int (current_version r uid))
       (clampLimit (DEFAULT_LIMIT cfg) (MAX_LIMIT cfg) (limit opts)) (cursor opts)"

definition version_ready :: "redis \<Rightarrow> string \<Rightarrow> redis" where
  "version_ready r uid =
     (case versions r (userVersionKey uid) of
        None \<Rightarrow> r\<lparr>versions := (versions r)(userVersionKey uid \<mapsto> 0),
                   version_ttl := (version_ttl r)(userVersionKey uid := None)\<rparr>
      | Some _ \<Rightarrow> r)"

definition page_stored :: "redis \<Rightarrow> string \<Rightarrow> payload \<Rightarrow> int \<Rightarrow> redis" where
  "page_stored r k p secs = (case redis_set_ex_nx r k p secs of Inl _ \<Rightarrow> r | Inr r2 \<Rightarrow> r2)"

text \<open>No page is cached under a version the counter of the user has not reached.\<close>

definition no_pages_ahead :: "redis \<Rightarrow> string \<Rightarrow> bool" where
  "no_pages_ahead r uid =
     (\<forall>n l c. current_version r uid < n \<longrightarrow> pages r (pageCacheKey uid (show_int n) l c) = None)"

definition digits_value :: "string \<Rightarrow> nat" where
  "digits_value s = foldl (\<lambda>a c. 10 * a + (of_char c - 48)) 0 s"

definition movie_page :: payload where
  "movie_page = \<lparr>items = [first_item], nextCursor = None, total_count = Some 2\<rparr>"

definition movies_of_user :: ListOptions where
  "movies_of_user = list_options None None (Some Movie)"

definition second_item :: IMyListItem where
  "second_item =
     \<lparr>item_id = 102, userId = 1, contentType = Movie, contentId = 11, episodeId = None,
      addedAt = 1704067260000,
      snapshot = \<lparr>title = ''Heat'', posterUrl = None, genres = Some [],
                  shortDescription = Some []\<rparr>,
      contentVisibility = Available\<rparr>"

definition five_newest :: ListOptions where
  "five_newest = list_options (Some 5) None None"

definition first_page :: payload where
  "first_page = \<lparr>items = [first_item], nextCursor = None, total_count = None\<rparr>"

text \<open>The world after the user has added the movie 10 and listed the five newest.\<close>

definition world_listed :: world where
  "world_listed =
     snd (getList node_runtime default_config world_one (oid_text 1) five_newest False)"

definition world_after :: world where
  "world_after =
     snd (addToList node_runtime world_listed (oid_text 1) (movie_payload 11) 1704067260000 102)"

text \<open>
  The cursor of a record does its work under a runtime when it is not empty (an empty
  cursor counts as none), is not the text \<open>start\<close> (the key of the first page), and
  decodes to the ordering key of the record.
\<close>

definition cursor_ok :: "runtime \<Rightarrow> IMyListItem \<Rightarrow> bool" where
  "cursor_ok rt x =
     (encodeCursor rt (addedAt x) (item_id x) \<noteq> []
      \<and> encodeCursor rt (addedAt x) (item_id x) \<noteq> ''start''
      \<and> decodeCursorSafe rt (encodeCursor rt (addedAt x) (item_id x))
          = Inr (addedAt x, item_id x))"

text \<open>
  The client of the pagination: List is called again with the cursor of the page
  before, until a page comes without one. Nothing in the code bounds the number of
  calls, so the loop runs on fuel and without fuel it has no result.
\<close>

fun list_all_pages ::
    "nat \<Rightarrow> runtime \<Rightarrow> config \<Rightarrow> world \<Rightarrow> string \<Rightarrow> ListOptions \<Rightarrow> bool
      \<Rightarrow> (error + IMyListItem list) option" where
  "list_all_pages 0 rt cfg w uid opts tot = None"
| "list_all_pages (Suc n) rt cfg w uid opts tot =
     (case getList rt cfg w uid opts tot of
        (Inl e, w') \<Rightarrow> Some (Inl e)
      | (Inr p, w') \<Rightarrow>
          (case nextCursor p of
             None \<Rightarrow> Some (Inr (items p))
           | Some c \<Rightarrow>
               map_option (map_sum id ((@) (items p)))
                 (list_all_pages n rt cfg w' uid (opts\<lparr>cursor := Some c\<rparr>) tot)))"

definition before_position :: "(int \<times> objectId) option \<Rightarrow> IMyListItem \<Rightarrow> bool" where
  "before_position pos x = (case pos of None \<Rightarrow> True | Some k \<Rightarrow> ordering_key x < k)"

text \<open>
  The page as the specification words it: query \<open>limit + 1\<close> records strictly before
  the cursor position, newest first; when more than \<open>limit\<close> return, keep \<open>limit\<close> and
  write the next cursor from the last one kept.
\<close>

definition spec_page ::
    "runtime \<Rightarrow> IMyListItem list \<Rightarrow> objectId \<Rightarrow> contentType option \<Rightarrow> (int \<times> objectId) option
      \<Rightarrow> nat \<Rightarrow> IMyListItem list \<times> string option" where
  "spec_page rt db u ct pos n =
     (let returned = take (Suc n) (find_sorted db u ct pos)
      in if n < length returned
         then (take n returned,
               Some (encodeCursor rt (addedAt (returned ! (n - 1))) (item_id (returned ! (n - 1)))))
         else (returned, None))"

definition show_item :: IMyListItem where
  "show_item =
     \<lparr>item_id = 101, userId = 1, contentType = TvShow, contentId = 20, episodeId = None,
      addedAt = 1704067200000,
      snapshot = \<lparr>title = ''Dark'', posterUrl = None, genres = Some [],
                  shortDescription = Some []\<rparr>,
      contentVisibility = Available\<rparr>"

definition world_three :: world where
  "world_three =
     snd (addToList node_runtime world_two (oid_text 1) (movie_payload 11) 1704067260000 102)"

definition two_per_page :: ListOptions where
  "two_per_page = list_options (Some 2) None None"

text \<open>
  What the cursor codec needs of the library at a pair: base64 gives the text back,
  the ISO text of the date is not empty, has no separator and parses to the date, and
  the text of the id is not empty, has no separator and parses to the id.
\<close>

definition codec_contract :: "runtime \<Rightarrow> int \<Rightarrow> objectId \<Rightarrow> bool" where
  "codec_contract rt ts i =
     (base64_decode rt (base64_encode rt (date_toISOString rt ts @ ''|'' @ oid_toString rt i))
        = date_toISOString rt ts @ ''|'' @ oid_toString rt i
      \<and> date_toISOString rt ts \<noteq> []
      \<and> CHR ''|'' \<notin> set (date_toISOString rt ts)
      \<and> date_parse rt (date_toISOString rt ts) = Some ts
      \<and> oid_toString rt i \<noteq> []
      \<and> CHR ''|'' \<notin> set (oid_toString rt i)
      \<and> oid_parse rt (oid_toString rt i) = Some i)"

text \<open>
  Two tokens that are not cursors of any pair: the cursor of the instant
  2024-01-01T00:00:00.000Z and the id 101 (hexadecimal 65) without the last character
  of its padding, and the base64 text of the same pair followed by \<open>|x\<close>.
\<close>

definition truncated_token :: string where
  "truncated_token = ''MjAyNC0wMS0wMVQwMDowMDowMC4wMDBafDAwMDAwMDAwMDAwMDAwMDAwMDAwMDA2NQ=''"

definition extended_token :: string where
  "extended_token = ''MjAyNC0wMS0wMVQwMDowMDowMC4wMDBafDAwMDAwMDAwMDAwMDAwMDAwMDAwMDA2NXx4''"

text \<open>
  The passing of time in a world: only Redis keeps a clock.
\<close>

definition later :: "int \<Rightarrow> world \<Rightarrow> world" where
  "later d w = w\<lparr>cache := elapse d (cache w)\<rparr>"

text \<open>
  A user whose counter runs out. The user added the movie 10 (the counter is 1, with
  thirty days to live); thirty seconds before the thirty days are over the user lists
  the five newest, which caches the page under version 1 for sixty seconds; thirty
  seconds later the counter is gone and the page has thirty seconds left. The user
  lists again (the counter restarts at 0 and the page is cached under version 0) and
  then adds the movie 11, thirty days after the first.
\<close>

definition world_late :: world where
  "world_late = later 2591970 world_one"

definition world_late_listed :: world where
  "world_late_listed =
     snd (getList node_runtime default_config world_late (oid_text 1) five_newest False)"

definition world_expired :: world where
  "world_expired = later 30 world_late_listed"

definition world_restarted :: world where
  "world_restarted =
     snd (getList node_runtime default_config world_expired (oid_text 1) five_newest False)"

definition late_item :: IMyListItem where
  "late_item =
     \<lparr>item_id = 102, userId = 1, contentType = Movie, contentId = 11, episodeId = None,
      addedAt = 1706659200000,
      snapshot = \<lparr>title = ''Heat'', posterUrl = None, genres = Some [],
                  shortDescription = Some []\<rparr>,
      contentVisibility = Available\<rparr>"

definition world_readded :: world where
  "world_readded =
     snd (addToList node_runtime world_restarted (oid_text 1) (movie_payload 11)
            1706659200000 102)"

text \<open>
  The user with the three records lists the shows, two per page; the user with the
  two records lists the five newest without a total and then asks for the movies with
  the total.
\<close>

definition shows_two_per_page :: ListOptions where
  "shows_two_per_page = list_options (Some 2) None (Some TvShow)"

definition shows_page :: payload where
  "shows_page = \<lparr>items = [show_item], nextCursor = None, total_count = None\<rparr>"

definition world_shows_listed :: world where
  "world_shows_listed =
     snd (getList node_runtime default_config world_three (oid_text 1) shows_two_per_page
            False)"

definition five_movies :: ListOptions where
  "five_movies = list_options (Some 5) None (Some Movie)"

definition newest_page :: payload where
  "newest_page = \<lparr>items = [show_item, first_item], nextCursor = None, total_count = None\<rparr>"

definition world_two_listed :: world where
  "world_two_listed =
     snd (getList node_runtime default_config world_two (oid_text 1) five_newest False)"

section \<open>Properties\<close>

subsection \<open>Basic facts\<close>

lemma split_on_nonempty: "split_on c s \<noteq> []"
  by (cases s) (auto split: list.splits)

lemma findOne_None_iff: "findOne db u c = None \<longleftrightarrow> (\<forall>x \<in> set db. \<not> same_pair u c x)"
  by (auto simp: findOne_def find_None_iff)




lemma oid_parse_text: "oid_parse node_runtime (oid_text 1) = Some 1"
  by code_simp

lemma oid_parse_text_10: "oid_parse node_runtime (oid_text 10) = Some 10"
  by code_simp

lemma oid_parse_text_11: "oid_parse node_runtime (oid_text 11) = Some 11"
  by code_simp

lemma mylist_world_one:
  "mylist world_one =
     [\<lparr>item_id = 100, userId = 1, contentType = Movie, contentId = 10, episodeId = None,
       addedAt = 1704067200000,
       snapshot = \<lparr>title = ''Inception'', posterUrl = None, genres = Some [],
                   shortDescription = Some []\<rparr>,
       contentVisibility = Available\<rparr>]"
  by code_simp

subsection \<open>The limit\<close>

text \<open>
  For a limit parameter that is absent, not a number, or an integer, the limit
  \<open>getList\<close> works with lies between 1 and \<open>MAX_LIMIT\<close>.
\<close>

lemma listItems_limit_integral:
  assumes "1 \<le> MAX_LIMIT cfg"
  shows "1 \<le> listItems_limit cfg (Finite (of_int k))
         \<and> listItems_limit cfg (Finite (of_int k)) \<le> of_int (MAX_LIMIT cfg)"
  using assms
  by (auto simp: listItems_limit_def clampLimit_def toNumberOrDefault_def min_def)

lemma listItems_limit_absent:
  "listItems_limit cfg NaN = min 20 (of_int (MAX_LIMIT cfg))"
  by (simp add: listItems_limit_def clampLimit_def toNumberOrDefault_def)

text \<open>
  C6. The claim is that List clamps its limit to \<open>[1, maxLimit]\<close>, so that the store is
  always queried with a limit in that range. For the request \<open>?limit=0.5\<close> the
  controller keeps 0.5 (it is finite and positive) and \<open>getList\<close> takes the minimum
  with 100: the limit is 0.5, below 1.
\<close>

theorem C6_fractional_limit:
  "listItems_limit default_config (Finite (1 / 2)) = 1 / 2
   \<and> listItems_limit default_config (Finite (1 / 2)) < 1"
  by (simp add: listItems_limit_def clampLimit_def toNumberOrDefault_def default_config_def)

subsection \<open>Removing what is not there\<close>

text \<open>
  C8. Removing a pair of well-formed identifiers that has no membership record
  returns null (the controller answers 404, without an exception), and the world is
  unchanged: the collection keeps every record and the version counter is not bumped.
  The identifiers have to be well formed: the claim as stated, for any pair without a
  record, fails at a content id that is not an ObjectId (below).
\<close>

theorem C8_remove_absent:
  assumes "oid_parse rt uid = Some u" and "oid_parse rt cid = Some c"
    and "\<forall>x \<in> set (mylist w). \<not> (userId x = u \<and> contentId x = c)"
  shows "removeFromList rt w uid cid = (Inr None, w) \<and> removeItem_status None = 404"
proof -
  have "findOne (mylist w) u c = None"
    using assms(3) by (simp add: findOne_None_iff same_pair_def)
  then show ?thesis
    using assms(1,2) by (simp add: removeFromList_def removeItem_status_def)
qed

theorem C8_remove_absent_witness:
  "removeFromList node_runtime world_one (oid_text 1) (oid_text 11) = (Inr None, world_one)
   \<and> removeItem_status None = 404"
proof -
  have "\<forall>x \<in> set (mylist world_one). \<not> (userId x = 1 \<and> contentId x = 11)"
    by (simp add: mylist_world_one)
  from C8_remove_absent[OF oid_parse_text oid_parse_text_11 this] show ?thesis .
qed

text \<open>
  The content id \<open>10\<close> of the request \<open>DELETE /api/mylist/10\<close> is no ObjectId, so no
  record of the user has it. \<open>removeItem\<close> hands it to \<open>removeFromList\<close> as it is; the
  constructor throws inside the \<open>try\<close>, and the call ends with the \<open>HttpError\<close> of
  status 500 instead of the null of a pair that is not there.
\<close>

theorem C8_malformed_id_counterexample:
  "oid_parse node_runtime ''10'' = None
   \<and> filter (\<lambda>x. oid_toString node_runtime (contentId x) = ''10'') (mylist world_one) = []
   \<and> removeFromList node_runtime world_one (oid_text 1) ''10'' = (Inl remove_failed, world_one)
   \<and> errorHandler_status remove_failed = 500
   \<and> fst (removeFromList node_runtime world_one (oid_text 1) ''10'') \<noteq> Inr None"
proof -
  have a: "oid_parse node_runtime ''10'' = None"
    by code_simp
  have b: "filter (\<lambda>x. oid_toString node_runtime (contentId x) = ''10'') (mylist world_one) = []"
    unfolding mylist_world_one by code_simp
  from a oid_parse_text
  have c: "removeFromList node_runtime world_one (oid_text 1) ''10'' = (Inl remove_failed, world_one)"
    by (simp add: removeFromList_def)
  from a b c show ?thesis
    by (simp add: remove_failed_def errorHandler_status_def)
qed

subsection \<open>Adding twice\<close>








subsection \<open>When Redis fails\<close>

text \<open>
  C5. The claim is that no failure of a cache operation reaches the caller of List.
  The read of the version key stands outside any \<open>try\<close>: when it fails for a valid
  user, \<open>getList\<close> ends with that exception, which the error handler answers with
  status 500, and the store is never read.
\<close>

theorem C5_version_read_failure_propagates:
  assumes "oid_parse rt uid = Some u" and "fails (cache w) GET (userVersionKey uid)"
  shows "getList rt cfg w uid opts includeTotal = (Inl redis_error, w)
         \<and> errorHandler_status redis_error = 500"
  using assms
  by (simp add: getList_def redis_get_version_def Let_def errorHandler_status_def redis_error_def)

theorem C5_version_read_failure_propagates_witness:
  "getList node_runtime default_config world_cache_down (oid_text 1)
     (list_options None None None) False = (Inl redis_error, world_cache_down)
   \<and> errorHandler_status redis_error = 500"
proof -
  have "fails (cache world_cache_down) GET (userVersionKey (oid_text 1))"
    by (simp add: world_cache_down_def redis_down_def)
  from C5_version_read_failure_propagates[OF oid_parse_text this] show ?thesis .
qed

text \<open>The same holds of the initialisation of the version key.\<close>

lemma version_init_failure_propagates:
  assumes "oid_parse rt uid = Some u" and "\<not> fails (cache w) GET (userVersionKey uid)"
    and "versions (cache w) (userVersionKey uid) = None"
    and "fails (cache w) SETNX (userVersionKey uid)"
  shows "getList rt cfg w uid opts includeTotal = (Inl redis_error, w)"
  using assms
  by (simp add: getList_def redis_get_version_def redis_setnx_def Let_def truthy_def)

subsection \<open>Episodes of another show\<close>

text \<open>
  C7. For an Add of a show with well-formed identifiers, an existing user and an
  existing show: an episode that does not exist is answered with 404
  \<open>EPISODE_NOT_FOUND\<close>, and an episode that names another show, or none, with 400
  \<open>EPISODE_MISMATCH\<close>. In both cases the world is unchanged, so no record is inserted.
\<close>

theorem C7_episode_checks:
  assumes "oid_parse rt uid = Some u" and "u \<in> users w"
    and "oid_parse rt (p_contentId pl) = Some c" and "p_contentType pl = TvShow"
    and "tvshows w c = Some sh"
    and "p_episodeId pl = Some es" and "es \<noteq> []" and "oid_parse rt es = Some e"
  shows "(episodes w e = None \<longrightarrow>
            addToList rt w uid pl now newId
            = (Inl (HttpError 404 ''episode not found'' ''EPISODE_NOT_FOUND''), w))
       \<and> (\<forall>ep. episodes w e = Some ep \<and> showId ep \<noteq> Some c \<longrightarrow>
            addToList rt w uid pl now newId
            = (Inl (HttpError 400 ''episode does not belong to provided tv show''
                      ''EPISODE_MISMATCH''), w))"
  using assms
  by (auto simp: addToList_def Let_def truthy_def isValid_def resolve_content_def)

lemma show_payload_fields:
  "p_contentId (show_payload c e) = oid_text c" "p_contentType (show_payload c e) = TvShow"
  "p_episodeId (show_payload c (Some e')) = Some (oid_text e')"
  by (simp_all add: show_payload_def)

theorem C7_episode_checks_witness:
  "addToList node_runtime sample_world (oid_text 1) (show_payload 20 (Some 31)) 1704067200000 100
     = (Inl (HttpError 400 ''episode does not belong to provided tv show''
               ''EPISODE_MISMATCH''), sample_world)
   \<and> addToList node_runtime sample_world (oid_text 1) (show_payload 20 (Some 32)) 1704067200000 100
     = (Inl (HttpError 404 ''episode not found'' ''EPISODE_NOT_FOUND''), sample_world)"
proof -
  have u: "1 \<in> users sample_world" by (simp add: sample_world_def)
  have c: "oid_parse node_runtime (oid_text 20) = Some 20" by code_simp
  have sh: "tvshows sample_world 20 = Some (doc_named ''Dark'')" by (simp add: sample_world_def)
  have e31: "oid_text 31 \<noteq> []" "oid_parse node_runtime (oid_text 31) = Some 31" by code_simp+
  have e32: "oid_text 32 \<noteq> []" "oid_parse node_runtime (oid_text 32) = Some 32" by code_simp+
  have ep31: "episodes sample_world 31 = Some \<lparr>showId = Some 21\<rparr>"
    and ep32: "episodes sample_world 32 = None"
    by (simp_all add: sample_world_def)
  from C7_episode_checks[of node_runtime "oid_text 1" 1 sample_world "show_payload 20 (Some 31)"
      20 "doc_named ''Dark''" "oid_text 31" 31 1704067200000 100]
    oid_parse_text u c sh e31 ep31
  have a: "addToList node_runtime sample_world (oid_text 1) (show_payload 20 (Some 31))
             1704067200000 100
           = (Inl (HttpError 400 ''episode does not belong to provided tv show''
                     ''EPISODE_MISMATCH''), sample_world)"
    by (simp add: show_payload_fields)
  from C7_episode_checks[of node_runtime "oid_text 1" 1 sample_world "show_payload 20 (Some 32)"
      20 "doc_named ''Dark''" "oid_text 32" 32 1704067200000 100]
    oid_parse_text u c sh e32 ep32
  have b: "addToList node_runtime sample_world (oid_text 1) (show_payload 20 (Some 32))
             1704067200000 100
           = (Inl (HttpError 404 ''episode not found'' ''EPISODE_NOT_FOUND''), sample_world)"
    by (simp add: show_payload_fields)
  from a b show ?thesis by simp
qed

text \<open>
  The claim as stated names the error of the mismatch a Conflict. At the episode 31
  of the show 21, added under the show 20, the error is a BadRequest with status 400.
\<close>

theorem C7_conflict_counterexample:
  "fst (addToList node_runtime sample_world (oid_text 1) (show_payload 20 (Some 31))
          1704067200000 100)
     = Inl (HttpError 400 ''episode does not belong to provided tv show'' ''EPISODE_MISMATCH'')
   \<and> spec_error_kind (HttpError 400 ''episode does not belong to provided tv show''
                         ''EPISODE_MISMATCH'') = BadRequest
   \<and> BadRequest \<noteq> Conflict"
proof -
  have "fst (addToList node_runtime sample_world (oid_text 1) (show_payload 20 (Some 31))
          1704067200000 100)
     = Inl (HttpError 400 ''episode does not belong to provided tv show'' ''EPISODE_MISMATCH'')"
    by code_simp
  then show ?thesis
    by (simp add: spec_error_kind_def errorHandler_status_def)
qed

subsection \<open>Decimal strings\<close>

lemma show_nat_nonempty: "show_nat n \<noteq> []"
  by (subst show_nat.simps) simp

lemma digit_chars_all:
  "\<forall>n<10. of_char (digit_chars ! n) = (48 + n :: nat) \<and> digit_chars ! n \<in> set digit_chars"
  unfolding digit_chars_def by (simp add: All_less_Suc numeral_eq_Suc)

lemma digit_chars_nth: "n < 10 \<Longrightarrow> of_char (digit_chars ! n) = (48 + n :: nat)"
  using digit_chars_all by blast

lemma digit_chars_nth_mem: "n < 10 \<Longrightarrow> digit_chars ! n \<in> set digit_chars"
  using digit_chars_all by blast

lemma show_nat_digits: "set (show_nat n) \<subseteq> set digit_chars"
proof (induction n rule: show_nat.induct)
  case (1 n)
  show ?case
  proof (cases "n < 10")
    case True
    then show ?thesis
      by (subst show_nat.simps) (simp add: digit_chars_nth_mem)
  next
    case False
    with 1 show ?thesis
      by (subst show_nat.simps) (simp add: digit_chars_nth_mem)
  qed
qed

lemma digits_value_snoc: "digits_value (s @ [c]) = 10 * digits_value s + (of_char c - 48)"
  by (simp add: digits_value_def)

lemma digits_value_show_nat: "digits_value (show_nat n) = n"
proof (induction n rule: show_nat.induct)
  case (1 n)
  show ?case
  proof (cases "n < 10")
    case True
    then show ?thesis
      by (subst show_nat.simps) (simp add: digits_value_def digit_chars_nth)
  next
    case False
    then have "digits_value (show_nat (n div 10)) = n div 10"
      using 1 by simp
    with False show ?thesis
      by (subst show_nat.simps) (simp add: digits_value_snoc digit_chars_nth)
  qed
qed

lemma show_nat_inj: "show_nat a = show_nat b \<Longrightarrow> a = b"
  by (metis digits_value_show_nat)

lemma show_int_nonempty: "show_int i \<noteq> []"
  by (simp add: show_int_def show_nat_nonempty)

lemma show_int_chars: "set (show_int i) \<subseteq> insert CHR ''-'' (set digit_chars)"
  using show_nat_digits by (auto simp: show_int_def)

lemma show_int_no_colon: "CHR '':'' \<notin> set (show_int i)"
  using show_int_chars[of i] by (auto simp: digit_chars_def)

lemma show_int_inj: "show_int a = show_int b \<Longrightarrow> a = b"
proof -
  assume eq: "show_int a = show_int b"
  have minus: "\<And>n. hd (show_nat n) \<noteq> CHR ''-''"
  proof -
    fix n
    have "hd (show_nat n) \<in> set (show_nat n)"
      by (simp add: show_nat_nonempty)
    with show_nat_digits[of n] show "hd (show_nat n) \<noteq> CHR ''-''"
      by (auto simp: digit_chars_def)
  qed
  consider "a < 0" "b < 0" | "0 \<le> a" "0 \<le> b" | "a < 0" "0 \<le> b" | "0 \<le> a" "b < 0"
    by linarith
  then show ?thesis
  proof cases
    case 1
    with eq have "nat (- a) = nat (- b)"
      by (auto simp: show_int_def dest: show_nat_inj)
    with 1 show ?thesis by simp
  next
    case 2
    with eq have "nat a = nat b"
      by (auto simp: show_int_def dest: show_nat_inj)
    with 2 show ?thesis by simp
  next
    case 3
    with eq have "CHR ''-'' # show_nat (nat (- a)) = show_nat (nat b)"
      by (simp add: show_int_def)
    then have "hd (show_nat (nat b)) = CHR ''-''"
      by (metis list.sel(1))
    with minus show ?thesis by blast
  next
    case 4
    with eq have "show_nat (nat a) = CHR ''-'' # show_nat (nat (- b))"
      by (simp add: show_int_def)
    then have "hd (show_nat (nat a)) = CHR ''-''"
      by (metis list.sel(1))
    with minus show ?thesis by blast
  qed
qed

subsection \<open>Page keys\<close>

lemma separated_prefix:
  "c \<notin> set a \<Longrightarrow> c \<notin> set b \<Longrightarrow> a @ c # x = b @ c # y \<Longrightarrow> a = b \<and> x = y"
proof (induction a arbitrary: b)
  case Nil
  then show ?case by (cases b) auto
next
  case (Cons h t)
  then show ?case by (cases b) auto
qed

text \<open>The version is a component of the page key: keys of different versions differ.\<close>

lemma pageCacheKey_version:
  assumes "pageCacheKey uid (show_int a) l c = pageCacheKey uid (show_int b) l' c'"
  shows "a = b"
proof -
  from assms have "show_int a @ CHR '':'' # (''limit'' @ show_int l @ '':cursor''
                     @ (if truthy c then the c else ''start''))
                 = show_int b @ CHR '':'' # (''limit'' @ show_int l' @ '':cursor''
                     @ (if truthy c' then the c' else ''start''))"
    by (simp add: pageCacheKey_def Let_def)
  from separated_prefix[OF show_int_no_colon show_int_no_colon this]
  show ?thesis by (simp add: show_int_inj)
qed

lemma pageCacheKey_cursor:
  assumes "pageCacheKey uid v l c = pageCacheKey uid v l c'"
  shows "(if truthy c then the c else ''start'') = (if truthy c' then the c' else ''start'')"
  using assms by (simp add: pageCacheKey_def Let_def)

subsection \<open>The two ways a List call is answered\<close>

lemma version_ready_fields:
  "pages (version_ready r uid) = pages r" "fails (version_ready r uid) = fails r"
  "current_version (version_ready r uid) uid = current_version r uid"
  "versions (version_ready r uid) (userVersionKey uid) = Some (current_version r uid)"
  by (auto simp: version_ready_def current_version_def split: option.splits)

lemma page_stored_fields:
  "versions (page_stored r k p t) = versions r" "fails (page_stored r k p t) = fails r"
  "pages (page_stored r k p t) k' =
     (if k' = k \<and> pages r k = None \<and> \<not> fails r SET_EX_NX k \<and> 0 < t then Some p
      else pages r k')"
  by (auto simp: page_stored_def redis_set_ex_nx_def split: option.splits)

lemma getList_unfold:
  assumes u: "oid_parse rt uid = Some u"
    and g: "\<not> fails (cache w) GET (userVersionKey uid)"
    and s: "versions (cache w) (userVersionKey uid) = None
            \<Longrightarrow> \<not> fails (cache w) SETNX (userVersionKey uid)"
  shows "getList rt cfg w uid opts tot =
     (case (if fails (cache w) GET (request_key cfg (cache w) uid opts) then None
            else pages (cache w) (request_key cfg (cache w) uid opts)) of
        Some p \<Rightarrow> (Inr p, w\<lparr>cache := version_ready (cache w) uid\<rparr>)
      | None \<Rightarrow>
          (case read_store rt (mylist w) u opts
                  (clampLimit (DEFAULT_LIMIT cfg) (MAX_LIMIT cfg) (limit opts)) tot of
             Inl e \<Rightarrow> (Inl e, w\<lparr>cache := version_ready (cache w) uid\<rparr>)
           | Inr p \<Rightarrow>
               (Inr p, w\<lparr>cache := page_stored (version_ready (cache w) uid)
                                     (request_key cfg (cache w) uid opts) p
                                     (PAGE_TTL_SECONDS cfg)\<rparr>)))"
proof (cases "versions (cache w) (userVersionKey uid)")
  case None
  with s have s': "\<not> fails (cache w) SETNX (userVersionKey uid)" by simp
  have v0: "show_int 0 = ''0''"
    by (simp add: show_int_def show_nat.simps digit_chars_def)
  show ?thesis
    using None u g s' v0
    by (simp add: getList_def Let_def redis_get_version_def redis_setnx_def truthy_def
        request_key_def current_version_def version_ready_def redis_get_page_def
        page_stored_def
        split: option.splits sum.splits)
next
  case (Some n)
  then show ?thesis
    using u g show_int_nonempty[of n]
    by (simp add: getList_def Let_def redis_get_version_def truthy_def
        request_key_def current_version_def version_ready_def redis_get_page_def
        page_stored_def
        split: option.splits sum.splits)
qed

subsection \<open>The total\<close>

lemma read_store_items:
  assumes "read_store rt db u opts lmt tot = Inr p"
  shows "\<exists>cur. set (items p) \<subseteq> set (find_sorted db u (opt_contentType opts) cur)"
proof -
  from assms obtain cur docs nxt where
    pd: "page_of_docs rt lmt
           (mongo_limit (lmt + 1) (find_sorted db u (opt_contentType opts) cur)) = Inr (docs, nxt)"
    and p: "items p = docs"
    by (auto simp: read_store_def cursor_position_def split: sum.splits if_splits)
  have "set docs \<subseteq> set (mongo_limit (lmt + 1) (find_sorted db u (opt_contentType opts) cur))"
    using pd by (auto simp: page_of_docs_def Let_def split: if_splits dest: in_set_takeD)
  also have "\<dots> \<subseteq> set (find_sorted db u (opt_contentType opts) cur)"
    by (auto simp: mongo_limit_def dest: in_set_takeD)
  finally show ?thesis using p by auto
qed

lemma find_sorted_set:
  "set (find_sorted db u ct cur) = {x \<in> set db. matches_query u ct cur x}"
  by (simp add: find_sorted_def)

lemma read_store_total:
  "read_store rt db u opts lmt True = Inr p \<Longrightarrow> total_count p = Some (countDocuments db u)"
  by (auto simp: read_store_def split: sum.splits if_splits)

text \<open>
  A List call with \<open>includeTotal\<close> that finds no page cached for its request attaches
  the number of all membership records of the user, whatever their content type, while
  the items of the page are of the requested content type.
\<close>

lemma total_unfiltered_on_miss:
  assumes u: "oid_parse rt uid = Some u"
    and miss: "pages (cache w) (request_key cfg (cache w) uid opts) = None"
    and res: "getList rt cfg w uid opts True = (Inr p, w')"
  shows "total_count p = Some (length (filter (\<lambda>x. userId x = u) (mylist w)))
         \<and> (\<forall>x \<in> set (items p). userId x = u
               \<and> (\<forall>t. opt_contentType opts = Some t \<longrightarrow> contentType x = t))"
proof -
  have g: "\<not> fails (cache w) GET (userVersionKey uid)"
    using res u by (auto simp: getList_def Let_def redis_get_version_def split: if_splits)
  have s: "versions (cache w) (userVersionKey uid) = None
           \<Longrightarrow> \<not> fails (cache w) SETNX (userVersionKey uid)"
    using res u g
    by (auto simp: getList_def Let_def redis_get_version_def redis_setnx_def truthy_def
        split: if_splits)
  have "s2 = (Inr p, w') \<Longrightarrow> s2 = getList rt cfg w uid opts True \<Longrightarrow>
        read_store rt (mylist w) u opts
           (clampLimit (DEFAULT_LIMIT cfg) (MAX_LIMIT cfg) (limit opts)) True = Inr p" for s2
    using miss by (auto simp: getList_unfold[OF u g s] split: sum.splits if_splits)
  with res have rs: "read_store rt (mylist w) u opts
           (clampLimit (DEFAULT_LIMIT cfg) (MAX_LIMIT cfg) (limit opts)) True = Inr p"
    by simp
  from read_store_items[OF rs] obtain cur where
    "set (items p) \<subseteq> set (find_sorted (mylist w) u (opt_contentType opts) cur)" ..
  then have "\<forall>x \<in> set (items p). userId x = u
               \<and> (\<forall>t. opt_contentType opts = Some t \<longrightarrow> contentType x = t)"
    by (auto simp: find_sorted_set matches_query_def)
  with read_store_total[OF rs] show ?thesis
    by (simp add: countDocuments_def)
qed

subsection \<open>What the operations do to Redis\<close>

lemma bumpUserVersion_fields:
  "pages (bumpUserVersion r uid) = pages r" "fails (bumpUserVersion r uid) = fails r"
  "page_ttl (bumpUserVersion r uid) = page_ttl r"
  by (auto simp: bumpUserVersion_def Let_def redis_incr_def redis_expire_def
      split: sum.splits option.splits)

lemma bumpUserVersion_version:
  "\<not> fails r INCR (userVersionKey uid)
    \<Longrightarrow> versions (bumpUserVersion r uid) (userVersionKey uid) = Some (current_version r uid + 1)"
  by (auto simp: bumpUserVersion_def Let_def redis_incr_def redis_expire_def
      current_version_def split: sum.splits option.splits)

lemma bumpUserVersion_monotone:
  "current_version r uid \<le> current_version (bumpUserVersion r uid) uid"
  by (auto simp: bumpUserVersion_def Let_def redis_incr_def redis_expire_def
      current_version_def split: sum.splits option.splits)

lemma insert_item_cache:
  "insert_item w uid d = (res, w') \<Longrightarrow>
     cache w' = cache w \<or> cache w' = bumpUserVersion (cache w) uid"
  by (auto simp: insert_item_def split: create_outcome.splits option.splits)

lemma insert_item_success_cache:
  "insert_item w uid d = (Inr r, w') \<Longrightarrow> cache w' = bumpUserVersion (cache w) uid"
  by (auto simp: insert_item_def split: create_outcome.splits option.splits)

lemma addToList_cache:
  "cache (snd (addToList rt w uid pl now i)) = cache w
   \<or> cache (snd (addToList rt w uid pl now i)) = bumpUserVersion (cache w) uid"
proof -
  have "\<And>d. cache (snd (insert_item w uid d)) = cache w
           \<or> cache (snd (insert_item w uid d)) = bumpUserVersion (cache w) uid"
    using insert_item_cache by (metis prod.collapse)
  then show ?thesis
    by (auto simp: addToList_def Let_def split: option.splits sum.splits)
qed

lemma addToList_success_cache:
  assumes "addToList rt w uid pl now i = (Inr r, w')"
  shows "cache w' = bumpUserVersion (cache w) uid"
  using assms
  by (auto simp: addToList_def Let_def split: option.splits sum.splits if_splits
      dest: insert_item_success_cache)

lemma removeFromList_success_cache:
  assumes "removeFromList rt w uid cid = (Inr (Some r), w')"
  shows "cache w' = bumpUserVersion (cache w) uid"
  using assms by (auto simp: removeFromList_def split: option.splits)

lemma addToList_pages_fails:
  "pages (cache (snd (addToList rt w uid pl now i))) = pages (cache w)"
  "fails (cache (snd (addToList rt w uid pl now i))) = fails (cache w)"
  using addToList_cache[of rt w uid pl now i] by (auto simp: bumpUserVersion_fields)

subsection \<open>Nothing is cached ahead of the counter\<close>

lemma no_pages_ahead_empty: "pages r = (\<lambda>k. None) \<Longrightarrow> no_pages_ahead r uid"
  by (simp add: no_pages_ahead_def)

lemma no_pages_ahead_bump:
  "no_pages_ahead r uid \<Longrightarrow> no_pages_ahead (bumpUserVersion r uid) uid"
  unfolding no_pages_ahead_def
  using bumpUserVersion_monotone[of r uid]
  by (auto simp: bumpUserVersion_fields)

lemma no_pages_ahead_addToList:
  "no_pages_ahead (cache w) uid
    \<Longrightarrow> no_pages_ahead (cache (snd (addToList rt w uid pl now i))) uid"
  using addToList_cache[of rt w uid pl now i] by (auto intro: no_pages_ahead_bump)

lemma no_pages_ahead_getList:
  assumes "no_pages_ahead (cache w) uid"
  shows "no_pages_ahead (cache (snd (getList rt cfg w uid opts tot))) uid"
proof (cases "oid_parse rt uid")
  case None
  with assms show ?thesis by (simp add: getList_def Let_def)
next
  case (Some u)
  show ?thesis
  proof (cases "\<not> fails (cache w) GET (userVersionKey uid)
                \<and> (versions (cache w) (userVersionKey uid) = None
                     \<longrightarrow> \<not> fails (cache w) SETNX (userVersionKey uid))")
    case True
    have ready: "no_pages_ahead (version_ready (cache w) uid) uid"
      using assms by (simp add: no_pages_ahead_def version_ready_fields)
    have stored: "no_pages_ahead
        (page_stored (version_ready (cache w) uid) (request_key cfg (cache w) uid opts) p t) uid"
      for p t
      unfolding no_pages_ahead_def
    proof (intro allI impI)
      fix n l c
      assume n: "current_version (page_stored (version_ready (cache w) uid)
                    (request_key cfg (cache w) uid opts) p t) uid < n"
      then have n': "current_version (cache w) uid < n"
        by (simp add: current_version_def page_stored_fields version_ready_fields(4))
      then have "pageCacheKey uid (show_int n) l c \<noteq> request_key cfg (cache w) uid opts"
        unfolding request_key_def using pageCacheKey_version by fastforce
      moreover have "pages (cache w) (pageCacheKey uid (show_int n) l c) = None"
        using assms n' by (simp add: no_pages_ahead_def)
      ultimately show "pages (page_stored (version_ready (cache w) uid)
                         (request_key cfg (cache w) uid opts) p t)
                         (pageCacheKey uid (show_int n) l c) = None"
        by (simp add: page_stored_fields version_ready_fields)
    qed
    from True have g: "\<not> fails (cache w) GET (userVersionKey uid)"
      and s: "versions (cache w) (userVersionKey uid) = None
              \<Longrightarrow> \<not> fails (cache w) SETNX (userVersionKey uid)"
      by auto
    show ?thesis
      using ready stored
      by (auto simp: getList_unfold[OF Some g s] split: option.splits sum.splits if_splits)
  next
    case False
    with Some assms show ?thesis
      by (auto simp: getList_def Let_def redis_get_version_def redis_setnx_def truthy_def
          split: if_splits)
  qed
qed

subsection \<open>Invalidation\<close>

text \<open>
  A page is cached for a request of a user under the current version; nothing is
  cached ahead of the counter. An Add or a Remove of that user succeeds and its
  increment of the counter goes through. Then the counter is one higher, the key of
  the same request has changed, the cached page is still stored under the old key,
  and a later List call of the same request (with the version key readable) is
  answered with what the store holds after the mutation.
\<close>

lemma bump_orphans_cached_page:
  assumes u: "oid_parse rt uid = Some u"
    and cached: "pages (cache w1) (request_key cfg (cache w1) uid opts) = Some p"
    and ahead: "no_pages_ahead (cache w1) uid"
    and mutation: "(\<exists>r. removeFromList rt w1 uid cid = (Inr (Some r), w2))
                   \<or> (\<exists>r. addToList rt w1 uid pl now newId = (Inr r, w2))"
    and incr: "\<not> fails (cache w1) INCR (userVersionKey uid)"
    and get: "\<not> fails (cache w1) GET (userVersionKey uid)"
  shows "current_version (cache w2) uid = current_version (cache w1) uid + 1
       \<and> request_key cfg (cache w2) uid opts \<noteq> request_key cfg (cache w1) uid opts
       \<and> pages (cache w2) (request_key cfg (cache w1) uid opts) = Some p
       \<and> fst (getList rt cfg w2 uid opts tot)
           = read_store rt (mylist w2) u opts
               (clampLimit (DEFAULT_LIMIT cfg) (MAX_LIMIT cfg) (limit opts)) tot"
proof -
  from mutation have c2: "cache w2 = bumpUserVersion (cache w1) uid"
    by (auto dest: removeFromList_success_cache addToList_success_cache)
  have v2: "versions (cache w2) (userVersionKey uid) = Some (current_version (cache w1) uid + 1)"
    unfolding c2 by (rule bumpUserVersion_version[OF incr])
  then have cur: "current_version (cache w2) uid = current_version (cache w1) uid + 1"
    by (simp add: current_version_def)
  have keys: "request_key cfg (cache w2) uid opts \<noteq> request_key cfg (cache w1) uid opts"
    unfolding request_key_def cur using pageCacheKey_version by fastforce
  have old: "pages (cache w2) (request_key cfg (cache w1) uid opts) = Some p"
    using cached by (simp add: c2 bumpUserVersion_fields)
  have new: "pages (cache w2) (request_key cfg (cache w2) uid opts) = None"
    using ahead unfolding request_key_def cur
    by (simp add: c2 bumpUserVersion_fields no_pages_ahead_def)
  have g: "\<not> fails (cache w2) GET (userVersionKey uid)"
    using get by (simp add: c2 bumpUserVersion_fields)
  have s: "versions (cache w2) (userVersionKey uid) = None
           \<Longrightarrow> \<not> fails (cache w2) SETNX (userVersionKey uid)"
    using v2 by simp
  have "fst (getList rt cfg w2 uid opts tot)
           = read_store rt (mylist w2) u opts
               (clampLimit (DEFAULT_LIMIT cfg) (MAX_LIMIT cfg) (limit opts)) tot"
    using new by (auto simp: getList_unfold[OF u g s] split: sum.splits if_splits)
  with cur keys old show ?thesis by simp
qed

lemma pages_world_two: "pages (cache world_two) k = None"
  by (simp add: world_two_def world_one_def addToList_pages_fails sample_world_def
      empty_redis_def)

lemma total_world_two:
  "total_count movie_page = Some (length (filter (\<lambda>x. userId x = 1) (mylist world_two)))
   \<and> length (filter (\<lambda>x. userId x = 1) (mylist world_two)) = 2
   \<and> items movie_page = [first_item]"
proof -
  have "fst (getList node_runtime default_config world_two (oid_text 1) movies_of_user True)
        = Inr movie_page"
    by code_simp
  then have res: "getList node_runtime default_config world_two (oid_text 1) movies_of_user True
        = (Inr movie_page,
           snd (getList node_runtime default_config world_two (oid_text 1) movies_of_user True))"
    by (simp add: prod_eq_iff)
  have two: "length (filter (\<lambda>x. userId x = 1) (mylist world_two)) = 2"
    by code_simp
  from total_unfiltered_on_miss[OF oid_parse_text pages_world_two res] two
  show ?thesis by (simp add: movie_page_def)
qed

lemma bump_orphans_world_after:
  "current_version (cache world_after) (oid_text 1)
     = current_version (cache world_listed) (oid_text 1) + 1
   \<and> request_key default_config (cache world_after) (oid_text 1) five_newest
       \<noteq> request_key default_config (cache world_listed) (oid_text 1) five_newest
   \<and> pages (cache world_after)
        (request_key default_config (cache world_listed) (oid_text 1) five_newest)
       = Some first_page
   \<and> fst (getList node_runtime default_config world_after (oid_text 1) five_newest False)
       = read_store node_runtime (mylist world_after) 1 five_newest
           (clampLimit (DEFAULT_LIMIT default_config) (MAX_LIMIT default_config)
              (limit five_newest)) False
   \<and> read_store node_runtime (mylist world_after) 1 five_newest
           (clampLimit (DEFAULT_LIMIT default_config) (MAX_LIMIT default_config)
              (limit five_newest)) False
       = Inr \<lparr>items = [second_item, first_item], nextCursor = None, total_count = None\<rparr>"
proof -
  have cached: "pages (cache world_listed)
                  (request_key default_config (cache world_listed) (oid_text 1) five_newest)
                = Some first_page"
    by code_simp
  have "no_pages_ahead (cache sample_world) (oid_text 1)"
    by (rule no_pages_ahead_empty) (simp add: sample_world_def empty_redis_def)
  then have ahead: "no_pages_ahead (cache world_listed) (oid_text 1)"
    unfolding world_listed_def world_one_def
    by (intro no_pages_ahead_getList no_pages_ahead_addToList)
  have "fst (addToList node_runtime world_listed (oid_text 1) (movie_payload 11)
               1704067260000 102) = Inr second_item"
    by code_simp
  then have mutation:
    "(\<exists>r. removeFromList node_runtime world_listed (oid_text 1) (oid_text 11)
             = (Inr (Some r), world_after))
     \<or> (\<exists>r. addToList node_runtime world_listed (oid_text 1) (movie_payload 11)
               1704067260000 102 = (Inr r, world_after))"
    by (auto simp: world_after_def prod_eq_iff)
  have incr: "\<not> fails (cache world_listed) INCR (userVersionKey (oid_text 1))"
    and get: "\<not> fails (cache world_listed) GET (userVersionKey (oid_text 1))"
    by code_simp+
  have store: "read_store node_runtime (mylist world_after) 1 five_newest
           (clampLimit (DEFAULT_LIMIT default_config) (MAX_LIMIT default_config)
              (limit five_newest)) False
       = Inr \<lparr>items = [second_item, first_item], nextCursor = None, total_count = None\<rparr>"
    by code_simp
  from bump_orphans_cached_page[OF oid_parse_text cached ahead mutation incr get,
      of False] store
  show ?thesis by simp
qed

subsection \<open>The order of a page\<close>

lemma filter_below_nth:
  fixes f :: "'a \<Rightarrow> 'b::linorder"
  shows "sorted_wrt (\<lambda>a b. f b < f a) R \<Longrightarrow> j < length R
          \<Longrightarrow> filter (\<lambda>x. f x < f (R ! j)) R = drop (Suc j) R"
proof (induction R arbitrary: j)
  case Nil
  then show ?case by simp
next
  case (Cons a R)
  show ?case
  proof (cases j)
    case 0
    have "filter (\<lambda>x. f x < f a) R = R"
      using Cons.prems(1) by (simp add: filter_id_conv)
    with 0 show ?thesis by simp
  next
    case (Suc k)
    with Cons.prems have k: "k < length R" and below: "f (R ! k) < f a"
      by auto
    then have "\<not> f a < f (R ! k)" by simp
    with Suc Cons.IH[OF _ k] Cons.prems(1) show ?thesis by simp
  qed
qed

lemma ordering_key_less:
  "ordering_key x < (ts, i) \<longleftrightarrow> addedAt x < ts \<or> (addedAt x = ts \<and> item_id x < i)"
  by (auto simp: ordering_key_def)

lemma before_position_Some: "before_position (Some k) = (\<lambda>x. ordering_key x < k)"
  by (rule ext) (simp add: before_position_def)

lemma matches_query_position:
  "matches_query u ct pos x \<longleftrightarrow> matches_query u ct None x \<and> before_position pos x"
  by (cases pos) (auto simp: matches_query_def before_position_def ordering_key_less)

lemma find_sorted_position:
  "find_sorted db u ct pos = filter (before_position pos) (find_sorted db u ct None)"
proof -
  have e: "filter (matches_query u ct pos) db
        = filter (before_position pos) (filter (matches_query u ct None) db)"
    using matches_query_position[of u ct pos] by (auto intro: filter_cong)
  show ?thesis
    unfolding find_sorted_def e by (simp only: rev_filter[symmetric] filter_sort)
qed

lemma find_sorted_descending:
  assumes "distinct (map item_id db)"
  shows "sorted_wrt (\<lambda>a b. ordering_key b < ordering_key a) (find_sorted db u ct pos)"
proof -
  let ?xs = "filter (matches_query u ct pos) db"
  have inj: "inj_on ordering_key (set db)"
    using assms by (auto simp: inj_on_def ordering_key_def distinct_map)
  have "distinct db" using assms by (simp add: distinct_map)
  then have d: "distinct (map ordering_key (sort_key ordering_key ?xs))"
    using inj by (auto simp: distinct_map intro: inj_on_subset)
  have "sorted (map ordering_key (sort_key ordering_key ?xs))"
    by simp
  with d have "sorted_wrt (<) (map ordering_key (sort_key ordering_key ?xs))"
    by (simp add: strict_sorted_iff)
  then show ?thesis
    by (simp add: find_sorted_def sorted_wrt_rev sorted_wrt_map)
qed

lemma find_sorted_next:
  assumes ids: "distinct (map item_id db)" and j: "j < length (find_sorted db u ct pos)"
  shows "find_sorted db u ct (Some (ordering_key (find_sorted db u ct pos ! j)))
         = drop (Suc j) (find_sorted db u ct pos)"
proof -
  let ?S = "find_sorted db u ct None" and ?R = "find_sorted db u ct pos"
  let ?k = "ordering_key (?R ! j)"
  have R: "?R = filter (before_position pos) ?S"
    by (rule find_sorted_position)
  have "?R ! j \<in> set ?R" using j by simp
  then have kpos: "before_position pos (?R ! j)"
    unfolding R by simp
  have imp: "ordering_key x < ?k \<Longrightarrow> before_position pos x" for x
    using kpos by (cases pos) (auto simp: before_position_def)
  have "find_sorted db u ct (Some ?k) = filter (\<lambda>x. ordering_key x < ?k) ?S"
    by (subst find_sorted_position) (simp only: before_position_Some)
  also have "\<dots> = filter (\<lambda>x. ordering_key x < ?k) (filter (before_position pos) ?S)"
    using imp by (auto intro: filter_cong)
  also have "\<dots> = filter (\<lambda>x. ordering_key x < ?k) ?R"
    by (simp only: R[symmetric])
  also have "\<dots> = drop (Suc j) ?R"
    by (rule filter_below_nth[OF find_sorted_descending[OF ids] j])
  finally show ?thesis .
qed

lemma find_sorted_later_below:
  assumes ids: "distinct (map item_id db)" and j: "j < length (find_sorted db u ct pos)"
    and x: "x \<in> set (drop (Suc j) (find_sorted db u ct pos))"
  shows "ordering_key x < ordering_key (find_sorted db u ct pos ! j)"
proof -
  from x have "x \<in> set (filter (\<lambda>x. ordering_key x < ordering_key (find_sorted db u ct pos ! j))
                          (find_sorted db u ct pos))"
    by (simp only: filter_below_nth[OF find_sorted_descending[OF ids] j])
  then show ?thesis by simp
qed

text \<open>
  The page the store answers with, for a limit of at least one and a cursor that
  decodes (or none): the first \<open>limit\<close> of the records strictly before the position,
  newest first; and a next cursor, written from the last of them, exactly when there
  are more.
\<close>

lemma read_store_page:
  assumes lmt: "1 \<le> lmt" and pos: "cursor_position rt (cursor opts) = Inr pos"
  shows "read_store rt db u opts lmt tot =
     Inr \<lparr>items = take (nat lmt) (find_sorted db u (opt_contentType opts) pos),
          nextCursor =
            (if nat lmt < length (find_sorted db u (opt_contentType opts) pos)
             then Some (encodeCursor rt
                    (addedAt (find_sorted db u (opt_contentType opts) pos ! (nat lmt - 1)))
                    (item_id (find_sorted db u (opt_contentType opts) pos ! (nat lmt - 1))))
             else None),
          total_count = (if tot then Some (countDocuments db u) else None)\<rparr>"
proof -
  let ?R = "find_sorted db u (opt_contentType opts) pos"
  have docs: "mongo_limit (lmt + 1) ?R = take (Suc (nat lmt)) ?R"
    using lmt by (simp add: mongo_limit_def nat_add_distrib)
  have more: "lmt < int (length (take (Suc (nat lmt)) ?R)) \<longleftrightarrow> nat lmt < length ?R"
    using lmt by auto
  have idx: "nat (lmt - 1) = nat lmt - 1"
    using lmt by simp
  show ?thesis
  proof (cases "nat lmt < length ?R")
    case True
    with lmt have "take (Suc (nat lmt)) ?R ! (nat lmt - 1) = ?R ! (nat lmt - 1)"
      by simp
    moreover have "take (nat lmt) (take (Suc (nat lmt)) ?R) = take (nat lmt) ?R"
      by simp
    ultimately show ?thesis
      using True lmt more
      by (simp add: read_store_def pos docs page_of_docs_def Let_def idx)
  next
    case False
    then have "take (Suc (nat lmt)) ?R = ?R" "take (nat lmt) ?R = ?R"
      by simp_all
    with False lmt more show ?thesis
      by (simp add: read_store_def pos docs page_of_docs_def)
  qed
qed

subsection \<open>Chaining the pages\<close>

lemma request_key_cursor:
  "request_key cfg r uid (opts\<lparr>cursor := c\<rparr>) = request_key cfg r uid (opts\<lparr>cursor := c'\<rparr>)
    \<Longrightarrow> (if truthy c then the c else ''start'') = (if truthy c' then the c' else ''start'')"
  unfolding request_key_def by (auto dest!: pageCacheKey_cursor)

lemma request_key_state:
  "current_version r' uid = current_version r uid
    \<Longrightarrow> request_key cfg r' uid opts = request_key cfg r uid opts"
  by (simp add: request_key_def)

lemma cursor_position_ok:
  "cursor_ok rt x \<Longrightarrow>
     cursor_position rt (Some (encodeCursor rt (addedAt x) (item_id x)))
     = Inr (Some (ordering_key x))"
  by (simp add: cursor_ok_def cursor_position_def truthy_def ordering_key_def)

lemma cursor_ok_distinct:
  "cursor_ok rt x \<Longrightarrow> cursor_ok rt y \<Longrightarrow> ordering_key x \<noteq> ordering_key y
    \<Longrightarrow> encodeCursor rt (addedAt x) (item_id x) \<noteq> encodeCursor rt (addedAt y) (item_id y)"
  by (auto simp: cursor_ok_def ordering_key_def)

lemma pages_chain:
  assumes u: "oid_parse rt uid = Some u"
    and lmt: "1 \<le> clampLimit (DEFAULT_LIMIT cfg) (MAX_LIMIT cfg) (limit opts)"
    and ids: "distinct (map item_id (mylist w))"
    and g: "\<not> fails (cache w) GET (userVersionKey uid)"
    and s: "\<not> fails (cache w) SETNX (userVersionKey uid)"
    and pos: "cursor_position rt (cursor opts) = Inr pos"
    and codec: "\<forall>x \<in> set (find_sorted (mylist w) u (opt_contentType opts) pos). cursor_ok rt x"
    and miss_now: "pages (cache w) (request_key cfg (cache w) uid opts) = None"
    and miss_later: "\<forall>x \<in> set (find_sorted (mylist w) u (opt_contentType opts) pos).
        pages (cache w) (request_key cfg (cache w) uid
          (opts\<lparr>cursor := Some (encodeCursor rt (addedAt x) (item_id x))\<rparr>)) = None"
    and differ: "\<forall>x \<in> set (find_sorted (mylist w) u (opt_contentType opts) pos).
        (if truthy (cursor opts) then the (cursor opts) else ''start'')
          \<noteq> encodeCursor rt (addedAt x) (item_id x)"
    and fuel: "length (find_sorted (mylist w) u (opt_contentType opts) pos) < n"
  shows "list_all_pages n rt cfg w uid opts tot
         = Some (Inr (find_sorted (mylist w) u (opt_contentType opts) pos))"
  using assms
proof (induction n arbitrary: w opts pos)
  case 0
  then show ?case by simp
next
  case (Suc n)
  let ?lmt = "clampLimit (DEFAULT_LIMIT cfg) (MAX_LIMIT cfg) (limit opts)"
  let ?ct = "opt_contentType opts"
  let ?R = "find_sorted (mylist w) u ?ct pos"
  let ?key = "request_key cfg (cache w) uid opts"
  let ?j = "nat ?lmt - 1"
  let ?enc = "\<lambda>x. encodeCursor rt (addedAt x) (item_id x)"
  from Suc.prems have u: "oid_parse rt uid = Some u" and lmt: "1 \<le> ?lmt"
    and ids: "distinct (map item_id (mylist w))"
    and g: "\<not> fails (cache w) GET (userVersionKey uid)"
    and s: "\<not> fails (cache w) SETNX (userVersionKey uid)"
    and pos: "cursor_position rt (cursor opts) = Inr pos"
    and codec: "\<forall>x \<in> set ?R. cursor_ok rt x"
    and miss_now: "pages (cache w) ?key = None"
    and miss_later: "\<forall>x \<in> set ?R.
        pages (cache w) (request_key cfg (cache w) uid (opts\<lparr>cursor := Some (?enc x)\<rparr>)) = None"
    and differ: "\<forall>x \<in> set ?R.
        (if truthy (cursor opts) then the (cursor opts) else ''start'') \<noteq> ?enc x"
    and fuel: "length ?R < Suc n"
    by blast+
  define p where "p = \<lparr>items = take (nat ?lmt) ?R,
          nextCursor = (if nat ?lmt < length ?R then Some (?enc (?R ! ?j)) else None),
          total_count = (if tot then Some (countDocuments (mylist w) u) else None)\<rparr>"
  define w' where
    "w' = w\<lparr>cache := page_stored (version_ready (cache w) uid) ?key p (PAGE_TTL_SECONDS cfg)\<rparr>"
  have rs: "read_store rt (mylist w) u opts ?lmt tot = Inr p"
    unfolding p_def by (rule read_store_page[OF lmt pos])
  have gl: "getList rt cfg w uid opts tot = (Inr p, w')"
    using miss_now rs s by (simp add: getList_unfold[OF u g] w'_def)
  show ?case
  proof (cases "nat ?lmt < length ?R")
    case False
    then have "take (nat ?lmt) ?R = ?R" by simp
    with False gl show ?thesis by (simp add: p_def)
  next
    case True
    let ?x = "?R ! ?j"
    let ?opts' = "opts\<lparr>cursor := Some (?enc ?x)\<rparr>"
    from True lmt have j: "?j < length ?R" and sj: "Suc ?j = nat ?lmt"
      by auto
    then have xR: "?x \<in> set ?R" by simp
    have next_R: "find_sorted (mylist w) u ?ct (Some (ordering_key ?x)) = drop (nat ?lmt) ?R"
      using find_sorted_next[OF ids j] sj by simp
    have sub: "set (drop (nat ?lmt) ?R) \<subseteq> set ?R"
      by (rule set_drop_subset)
    have ml: "mylist w' = mylist w"
      by (simp add: w'_def)
    have cv: "current_version (cache w') uid = current_version (cache w) uid"
      by (simp add: w'_def current_version_def page_stored_fields version_ready_fields(4))
    have key': "request_key cfg (cache w') uid o' = request_key cfg (cache w) uid o'" for o'
      by (rule request_key_state[OF cv])
    have now_key: "?key = request_key cfg (cache w) uid (opts\<lparr>cursor := cursor opts\<rparr>)"
      by simp
    have pages': "pages (cache w') (request_key cfg (cache w) uid (opts\<lparr>cursor := Some (?enc y)\<rparr>))
                  = None" if "y \<in> set ?R" for y
    proof -
      have "request_key cfg (cache w) uid (opts\<lparr>cursor := Some (?enc y)\<rparr>) \<noteq> ?key"
      proof
        assume "request_key cfg (cache w) uid (opts\<lparr>cursor := Some (?enc y)\<rparr>) = ?key"
        then have "request_key cfg (cache w) uid (opts\<lparr>cursor := Some (?enc y)\<rparr>)
                   = request_key cfg (cache w) uid (opts\<lparr>cursor := cursor opts\<rparr>)"
          by simp
        from request_key_cursor[OF this] codec that differ show False
          by (auto simp: truthy_def cursor_ok_def)
      qed
      with miss_later that show ?thesis
        by (simp add: w'_def page_stored_fields version_ready_fields)
    qed
    have codec_x: "cursor_ok rt ?x" using codec xR by blast
    have IH: "list_all_pages n rt cfg w' uid ?opts' tot = Some (Inr (drop (nat ?lmt) ?R))"
    proof -
      have "list_all_pages n rt cfg w' uid ?opts' tot
            = Some (Inr (find_sorted (mylist w') u (opt_contentType ?opts')
                           (Some (ordering_key ?x))))"
      proof (rule Suc.IH)
        show "oid_parse rt uid = Some u" by (rule u)
        show "1 \<le> clampLimit (DEFAULT_LIMIT cfg) (MAX_LIMIT cfg) (limit ?opts')"
          using lmt by simp
        show "distinct (map item_id (mylist w'))"
          using ids by (simp add: w'_def)
        show "\<not> fails (cache w') GET (userVersionKey uid)"
          using g by (simp add: w'_def page_stored_fields version_ready_fields)
        show "\<not> fails (cache w') SETNX (userVersionKey uid)"
          using s by (simp add: w'_def page_stored_fields version_ready_fields)
        show "cursor_position rt (cursor ?opts') = Inr (Some (ordering_key ?x))"
          using cursor_position_ok[OF codec_x] by simp
        show "\<forall>y \<in> set (find_sorted (mylist w') u (opt_contentType ?opts')
                          (Some (ordering_key ?x))). cursor_ok rt y"
          using codec sub next_R by (auto simp: w'_def)
        show "pages (cache w') (request_key cfg (cache w') uid ?opts') = None"
          using pages'[OF xR] by (simp add: key')
        show "\<forall>y \<in> set (find_sorted (mylist w') u (opt_contentType ?opts')
                          (Some (ordering_key ?x))).
                pages (cache w') (request_key cfg (cache w') uid
                  (?opts'\<lparr>cursor := Some (?enc y)\<rparr>)) = None"
          using pages' sub next_R by (auto simp: ml key')
        show "\<forall>y \<in> set (find_sorted (mylist w') u (opt_contentType ?opts')
                          (Some (ordering_key ?x))).
                (if truthy (cursor ?opts') then the (cursor ?opts') else ''start'') \<noteq> ?enc y"
        proof
          fix y
          assume "y \<in> set (find_sorted (mylist w') u (opt_contentType ?opts')
                             (Some (ordering_key ?x)))"
          then have y: "y \<in> set (drop (Suc ?j) ?R)"
            using next_R sj by (simp add: w'_def)
          then have "ordering_key y < ordering_key ?x"
            by (rule find_sorted_later_below[OF ids j])
          moreover have "cursor_ok rt y" using y sub sj codec by auto
          ultimately have "?enc ?x \<noteq> ?enc y"
            using cursor_ok_distinct[OF codec_x] by auto
          moreover have "truthy (Some (?enc ?x))"
            using codec_x by (simp add: truthy_def cursor_ok_def)
          ultimately show "(if truthy (cursor ?opts') then the (cursor ?opts') else ''start'')
                           \<noteq> ?enc y"
            by simp
        qed
        show "length (find_sorted (mylist w') u (opt_contentType ?opts')
                        (Some (ordering_key ?x))) < n"
          using next_R fuel lmt True by (simp add: w'_def)
      qed
      then show ?thesis using next_R by (simp add: w'_def)
    qed
    from True gl IH show ?thesis
      by (simp add: p_def)
  qed
qed

lemma read_store_spec_page:
  assumes lmt: "1 \<le> lmt" and pos: "cursor_position rt (cursor opts) = Inr pos"
  shows "\<exists>p. read_store rt db u opts lmt tot = Inr p
             \<and> (items p, nextCursor p) = spec_page rt db u (opt_contentType opts) pos (nat lmt)"
proof -
  let ?R = "find_sorted db u (opt_contentType opts) pos"
  have "nat lmt < length (take (Suc (nat lmt)) ?R) \<longleftrightarrow> nat lmt < length ?R"
    by auto
  moreover have "nat lmt < length ?R \<Longrightarrow> take (Suc (nat lmt)) ?R ! (nat lmt - 1) = ?R ! (nat lmt - 1)"
    by simp
  moreover have "\<not> nat lmt < length ?R \<Longrightarrow> take (Suc (nat lmt)) ?R = take (nat lmt) ?R"
    by simp
  ultimately show ?thesis
    unfolding read_store_page[OF lmt pos] spec_page_def Let_def
    by (auto simp: min_def)
qed

lemma find_sorted_facts:
  "set (find_sorted db u ct None)
     = {x \<in> set db. userId x = u \<and> (\<forall>t. ct = Some t \<longrightarrow> contentType x = t)}"
  "length (find_sorted db u ct None) \<le> countDocuments db u"
  "length (find_sorted db u None None) = countDocuments db u"
  "distinct (map item_id db) \<Longrightarrow> distinct (find_sorted db u ct None)"
proof -
  show "set (find_sorted db u ct None)
     = {x \<in> set db. userId x = u \<and> (\<forall>t. ct = Some t \<longrightarrow> contentType x = t)}"
    by (auto simp: find_sorted_set matches_query_def split: option.splits)
  have "filter (matches_query u ct None) db
        = filter (matches_query u ct None) (filter (\<lambda>x. userId x = u) db)"
    by (auto simp: matches_query_def intro: filter_cong)
  then have "length (filter (matches_query u ct None) db) \<le> length (filter (\<lambda>x. userId x = u) db)"
    by (metis length_filter_le)
  then show "length (find_sorted db u ct None) \<le> countDocuments db u"
    by (simp add: find_sorted_def countDocuments_def)
  have "filter (matches_query u None None) db = filter (\<lambda>x. userId x = u) db"
    by (auto simp: matches_query_def intro: filter_cong)
  then show "length (find_sorted db u None None) = countDocuments db u"
    by (simp add: find_sorted_def countDocuments_def)
  show "distinct (map item_id db) \<Longrightarrow> distinct (find_sorted db u ct None)"
    by (simp add: find_sorted_def distinct_map)
qed

text \<open>
  A valid user, a limit of at least one after clamping, no cursor on the first
  call, a collection whose records have distinct ids and whose cursors the runtime
  round-trips, a version key that can be read and initialised, and no page of the
  request cached under the current version. Then each page read from the store is the
  page of the specification, and the chained calls, given more calls than the user has
  records, return the records of the user (of the requested content type, when one is
  given): each exactly once, newest first in strictly descending order of
  \<open>(addedAt, _id)\<close>; without a content type these are all \<open>N\<close> records of the user.
\<close>

lemma pagination_complete_cold:
  assumes u: "oid_parse rt uid = Some u"
    and lmt: "1 \<le> clampLimit (DEFAULT_LIMIT cfg) (MAX_LIMIT cfg) (limit opts)"
    and start: "\<not> truthy (cursor opts)"
    and ids: "distinct (map item_id (mylist w))"
    and codec: "\<forall>x \<in> set (mylist w). cursor_ok rt x"
    and g: "\<not> fails (cache w) GET (userVersionKey uid)"
    and s: "\<not> fails (cache w) SETNX (userVersionKey uid)"
    and cold: "\<forall>c. pages (cache w) (request_key cfg (cache w) uid (opts\<lparr>cursor := c\<rparr>)) = None"
    and fuel: "countDocuments (mylist w) u < n"
  shows "(\<forall>q pos. cursor_position rt (cursor q) = Inr pos \<longrightarrow>
            (\<exists>p. read_store rt (mylist w) u q
                    (clampLimit (DEFAULT_LIMIT cfg) (MAX_LIMIT cfg) (limit opts)) tot = Inr p
                \<and> (items p, nextCursor p)
                    = spec_page rt (mylist w) u (opt_contentType q) pos
                        (nat (clampLimit (DEFAULT_LIMIT cfg) (MAX_LIMIT cfg) (limit opts)))))
       \<and> (\<exists>S. list_all_pages n rt cfg w uid opts tot = Some (Inr S)
            \<and> set S = {x \<in> set (mylist w). userId x = u
                          \<and> (\<forall>t. opt_contentType opts = Some t \<longrightarrow> contentType x = t)}
            \<and> distinct S
            \<and> sorted_wrt (\<lambda>a b. ordering_key b < ordering_key a) S
            \<and> (opt_contentType opts = None \<longrightarrow> length S = countDocuments (mylist w) u))"
proof -
  let ?S = "find_sorted (mylist w) u (opt_contentType opts) None"
  have pos: "cursor_position rt (cursor opts) = Inr None"
    using start by (simp add: cursor_position_def)
  have now_key: "request_key cfg (cache w) uid opts
                 = request_key cfg (cache w) uid (opts\<lparr>cursor := cursor opts\<rparr>)"
    by simp
  have run: "list_all_pages n rt cfg w uid opts tot = Some (Inr ?S)"
  proof (rule pages_chain[OF u lmt ids g s pos])
    show "\<forall>x \<in> set ?S. cursor_ok rt x"
      using codec by (auto simp: find_sorted_set)
    show "pages (cache w) (request_key cfg (cache w) uid opts) = None"
      using cold now_key by metis
    show "\<forall>x \<in> set ?S. pages (cache w) (request_key cfg (cache w) uid
            (opts\<lparr>cursor := Some (encodeCursor rt (addedAt x) (item_id x))\<rparr>)) = None"
      using cold by blast
    show "\<forall>x \<in> set ?S. (if truthy (cursor opts) then the (cursor opts) else ''start'')
            \<noteq> encodeCursor rt (addedAt x) (item_id x)"
      using start codec by (auto simp: find_sorted_set cursor_ok_def)
    show "length ?S < n"
      using fuel find_sorted_facts(2)[of "mylist w" u "opt_contentType opts"] by simp
  qed
  have count: "opt_contentType opts = None \<longrightarrow> length ?S = countDocuments (mylist w) u"
    by (auto simp: find_sorted_facts(3))
  have chain: "\<exists>S. list_all_pages n rt cfg w uid opts tot = Some (Inr S)
            \<and> set S = {x \<in> set (mylist w). userId x = u
                          \<and> (\<forall>t. opt_contentType opts = Some t \<longrightarrow> contentType x = t)}
            \<and> distinct S
            \<and> sorted_wrt (\<lambda>a b. ordering_key b < ordering_key a) S
            \<and> (opt_contentType opts = None \<longrightarrow> length S = countDocuments (mylist w) u)"
  proof (intro exI[of _ ?S] conjI)
    show "list_all_pages n rt cfg w uid opts tot = Some (Inr ?S)" by (rule run)
    show "set ?S = {x \<in> set (mylist w). userId x = u
                          \<and> (\<forall>t. opt_contentType opts = Some t \<longrightarrow> contentType x = t)}"
      by (rule find_sorted_facts(1))
    show "distinct ?S" by (rule find_sorted_facts(4)[OF ids])
    show "sorted_wrt (\<lambda>a b. ordering_key b < ordering_key a) ?S"
      by (rule find_sorted_descending[OF ids])
    show "opt_contentType opts = None \<longrightarrow> length ?S = countDocuments (mylist w) u"
      by (rule count)
  qed
  have page: "\<forall>q pos. cursor_position rt (cursor q) = Inr pos \<longrightarrow>
            (\<exists>p. read_store rt (mylist w) u q
                    (clampLimit (DEFAULT_LIMIT cfg) (MAX_LIMIT cfg) (limit opts)) tot = Inr p
                \<and> (items p, nextCursor p)
                    = spec_page rt (mylist w) u (opt_contentType q) pos
                        (nat (clampLimit (DEFAULT_LIMIT cfg) (MAX_LIMIT cfg) (limit opts))))"
    using read_store_spec_page[OF lmt] by blast
  from page chain show ?thesis by blast
qed

lemma mylist_world_three: "mylist world_three = [first_item, show_item, second_item]"
  by code_simp

lemma pages_world_three: "pages (cache world_three) k = None"
  by (simp add: world_three_def addToList_pages_fails pages_world_two)

lemma fails_world_three: "fails (cache world_three) = no_failures"
  by (simp add: world_three_def world_two_def world_one_def addToList_pages_fails
      sample_world_def empty_redis_def)

lemma pagination_world_three:
  "list_all_pages 4 node_runtime default_config world_three (oid_text 1) two_per_page False
     = Some (Inr [second_item, show_item, first_item])
   \<and> fst (getList node_runtime default_config world_three (oid_text 1) two_per_page False)
     = Inr \<lparr>items = [second_item, show_item],
            nextCursor = Some (encodeCursor node_runtime 1704067200000 101),
            total_count = None\<rparr>"
proof -
  have lmt: "1 \<le> clampLimit (DEFAULT_LIMIT default_config) (MAX_LIMIT default_config)
                  (limit two_per_page)"
    by code_simp
  have start: "\<not> truthy (cursor two_per_page)"
    by code_simp
  have ids: "distinct (map item_id (mylist world_three))"
    unfolding mylist_world_three by code_simp
  have "cursor_ok node_runtime first_item" "cursor_ok node_runtime show_item"
    "cursor_ok node_runtime second_item"
    by code_simp+
  then have codec: "\<forall>x \<in> set (mylist world_three). cursor_ok node_runtime x"
    by (simp add: mylist_world_three)
  have g: "\<not> fails (cache world_three) GET (userVersionKey (oid_text 1))"
    and s: "\<not> fails (cache world_three) SETNX (userVersionKey (oid_text 1))"
    by (simp_all add: fails_world_three no_failures_def)
  have cold: "\<forall>c. pages (cache world_three)
                 (request_key default_config (cache world_three) (oid_text 1)
                    (two_per_page\<lparr>cursor := c\<rparr>)) = None"
    by (simp add: pages_world_three)
  have fuel: "countDocuments (mylist world_three) 1 < 4"
    unfolding mylist_world_three by code_simp
  from pagination_complete_cold[OF oid_parse_text lmt start ids codec g s cold fuel, of False]
  obtain S where S: "list_all_pages 4 node_runtime default_config world_three (oid_text 1)
                       two_per_page False = Some (Inr S)"
    and sorted: "sorted_wrt (\<lambda>a b. ordering_key b < ordering_key a) S"
    and members: "set S = {x \<in> set (mylist world_three). userId x = 1
                    \<and> (\<forall>t. opt_contentType two_per_page = Some t \<longrightarrow> contentType x = t)}"
    and d: "distinct S"
    by blast
  have "list_all_pages 4 node_runtime default_config world_three (oid_text 1) two_per_page False
        = Some (Inr [second_item, show_item, first_item])"
    by code_simp
  moreover have "fst (getList node_runtime default_config world_three (oid_text 1)
                        two_per_page False)
     = Inr \<lparr>items = [second_item, show_item],
            nextCursor = Some (encodeCursor node_runtime 1704067200000 101),
            total_count = None\<rparr>"
    by code_simp
  ultimately show ?thesis using S by simp
qed

subsection \<open>The cursor codec\<close>

lemma split_on_no_separator: "c \<notin> set s \<Longrightarrow> split_on c s = [s]"
  by (induction s) auto

lemma split_on_first: "c \<notin> set a \<Longrightarrow> split_on c (a @ c # b) = a # split_on c b"
  by (induction a) (auto split: list.splits)

lemma decode_encode:
  assumes "codec_contract rt ts i"
  shows "decodeCursorSafe rt (encodeCursor rt ts i) = Inr (ts, i)"
proof -
  let ?iso = "date_toISOString rt ts" and ?hex = "oid_toString rt i"
  from assms have raw: "base64_decode rt (encodeCursor rt ts i) = ?iso @ CHR ''|'' # ?hex"
    and iso: "?iso \<noteq> []" "CHR ''|'' \<notin> set ?iso" "date_parse rt ?iso = Some ts"
    and hex: "?hex \<noteq> []" "CHR ''|'' \<notin> set ?hex" "oid_parse rt ?hex = Some i"
    by (simp_all add: codec_contract_def encodeCursor_def)
  have "split_on CHR ''|'' (?iso @ CHR ''|'' # ?hex) = [?iso, ?hex]"
    using iso(2) hex(2) by (simp add: split_on_first split_on_no_separator)
  with iso hex show ?thesis
    by (simp add: decodeCursorSafe_def raw second_piece_def truthy_def)
qed

lemma decode_failure:
  "decodeCursorSafe rt c = Inl e \<Longrightarrow> e = invalid_cursor"
  by (auto simp: decodeCursorSafe_def Let_def split: if_splits option.splits)

lemma decode_success:
  "decodeCursorSafe rt c = Inr (ts, i) \<longleftrightarrow>
     (\<exists>a b rest. split_on CHR ''|'' (base64_decode rt c) = a # b # rest
        \<and> a \<noteq> [] \<and> b \<noteq> [] \<and> date_parse rt a = Some ts \<and> oid_parse rt b = Some i)"
proof (cases "split_on CHR ''|'' (base64_decode rt c)")
  case Nil
  then show ?thesis by (simp add: split_on_nonempty)
next
  case (Cons a ps)
  then show ?thesis
    by (cases ps)
      (auto simp: decodeCursorSafe_def Let_def second_piece_def truthy_def
        split: option.splits)
qed

text \<open>The cursors of the instance have a length divisible by four.\<close>

lemma b64_encode_bytes_length: "4 dvd length (b64_encode_bytes bs)"
  by (induction bs rule: b64_encode_bytes.induct) (simp_all, presburger+)

lemma encodeCursor_length: "4 dvd length (encodeCursor node_runtime ts i)"
  by (simp add: encodeCursor_def node_runtime_def node_base64_encode_def
      b64_encode_bytes_length)

text \<open>
  C3. For a pair the library round-trips, decoding the cursor of the pair gives the
  pair back. Decoding any token either succeeds or fails with the one \<open>Invalid cursor\<close>
  error of status 400; it succeeds exactly when the decoded text, split at the
  separator, starts with a non-empty piece that parses as a date and a non-empty
  piece that is a valid id.
\<close>

theorem C3_cursor_codec:
  assumes "codec_contract rt ts i"
  shows "decodeCursorSafe rt (encodeCursor rt ts i) = Inr (ts, i)
       \<and> (\<forall>c e. decodeCursorSafe rt c = Inl e \<longrightarrow>
             e = invalid_cursor \<and> errorHandler_status e = 400)
       \<and> (\<forall>c ts' i'. decodeCursorSafe rt c = Inr (ts', i') \<longleftrightarrow>
             (\<exists>a b rest. split_on CHR ''|'' (base64_decode rt c) = a # b # rest
                \<and> a \<noteq> [] \<and> b \<noteq> [] \<and> date_parse rt a = Some ts'
                \<and> oid_parse rt b = Some i'))"
proof (intro conjI allI impI)
  show "decodeCursorSafe rt (encodeCursor rt ts i) = Inr (ts, i)"
    by (rule decode_encode[OF assms])
next
  fix c e
  assume "decodeCursorSafe rt c = Inl e"
  then show "e = invalid_cursor" by (rule decode_failure)
  then show "errorHandler_status e = 400"
    by (simp add: invalid_cursor_def errorHandler_status_def)
next
  fix c ts' i'
  show "decodeCursorSafe rt c = Inr (ts', i') \<longleftrightarrow>
             (\<exists>a b rest. split_on CHR ''|'' (base64_decode rt c) = a # b # rest
                \<and> a \<noteq> [] \<and> b \<noteq> [] \<and> date_parse rt a = Some ts'
                \<and> oid_parse rt b = Some i')"
    by (rule decode_success)
qed

theorem C3_cursor_codec_witness:
  "decodeCursorSafe node_runtime (encodeCursor node_runtime 1704067200000 101)
     = Inr (1704067200000, 101)
   \<and> decodeCursorSafe node_runtime ''start'' = Inl invalid_cursor
   \<and> errorHandler_status invalid_cursor = 400"
proof -
  have c: "codec_contract node_runtime 1704067200000 101"
    by code_simp
  have "decodeCursorSafe node_runtime ''start'' = Inl invalid_cursor"
    by code_simp
  with C3_cursor_codec[OF c] show ?thesis by blast
qed

text \<open>
  The claim as stated has every token that is not a cursor fail. The truncated token,
  whose length is not divisible by four, and the extended token, which differs from
  the cursor of the pair, both decode to the pair.
\<close>

theorem C3_lenient_counterexample:
  "decodeCursorSafe node_runtime truncated_token = Inr (1704067200000, 101)
   \<and> truncated_token = butlast (encodeCursor node_runtime 1704067200000 101)
   \<and> \<not> 4 dvd length truncated_token
   \<and> decodeCursorSafe node_runtime extended_token = Inr (1704067200000, 101)
   \<and> extended_token \<noteq> encodeCursor node_runtime 1704067200000 101"
  by code_simp

subsection \<open>The page cache in a List call\<close>

text \<open>
  A page cached under the key of the request is returned as it is, whatever content
  type and total the request asks for: neither is part of the key.
\<close>

lemma getList_cached_page:
  assumes u: "oid_parse rt uid = Some u"
    and g: "\<not> fails (cache w) GET (userVersionKey uid)"
    and s: "versions (cache w) (userVersionKey uid) = None
            \<Longrightarrow> \<not> fails (cache w) SETNX (userVersionKey uid)"
    and read: "\<not> fails (cache w) GET (request_key cfg (cache w) uid opts)"
    and hit: "pages (cache w) (request_key cfg (cache w) uid opts) = Some p"
  shows "fst (getList rt cfg w uid opts tot) = Inr p"
  using read hit by (simp add: getList_unfold[OF u g s])

lemma request_key_filter:
  "request_key cfg r uid (opts\<lparr>opt_contentType := t\<rparr>) = request_key cfg r uid opts"
  by (simp add: request_key_def)

text \<open>
  A failure of the read of the page is a miss, and a failure of its write changes
  nothing of the answer: with the version key readable, the answer of a List call
  that finds no page is what the store holds.
\<close>

lemma getList_page_failures_swallowed:
  assumes u: "oid_parse rt uid = Some u"
    and g: "\<not> fails (cache w) GET (userVersionKey uid)"
    and s: "versions (cache w) (userVersionKey uid) = None
            \<Longrightarrow> \<not> fails (cache w) SETNX (userVersionKey uid)"
    and miss: "fails (cache w) GET (request_key cfg (cache w) uid opts)
               \<or> pages (cache w) (request_key cfg (cache w) uid opts) = None"
  shows "fst (getList rt cfg w uid opts tot)
         = read_store rt (mylist w) u opts
             (clampLimit (DEFAULT_LIMIT cfg) (MAX_LIMIT cfg) (limit opts)) tot"
  using miss by (auto simp: getList_unfold[OF u g s] split: sum.splits)

subsection \<open>Reading what was written\<close>

lemma read_from_snoc:
  "read_from val base acc (s @ [c]) =
     (case read_from val base acc s of
        None \<Rightarrow> None
      | Some a \<Rightarrow> (case val c of None \<Rightarrow> None | Some d \<Rightarrow> Some (a * base + d)))"
  by (induction s arbitrary: acc) (auto split: option.splits)

lemma read_from_zeros:
  "val CHR ''0'' = Some 0 \<Longrightarrow>
   read_from val base 0 (replicate k CHR ''0'' @ s) = read_from val base 0 s"
  by (induction k) simp_all

lemma digit_value_digit: "n < 10 \<Longrightarrow> digit_value (digit_chars ! n) = Some n"
  by (simp add: digit_value_def digit_chars_nth)

lemma read_from_show_nat: "read_from digit_value 10 0 (show_nat n) = Some n"
proof (induction n rule: show_nat.induct)
  case (1 n)
  show ?case
  proof (cases "n < 10")
    case True
    then show ?thesis
      by (subst show_nat.simps) (simp add: digit_value_digit)
  next
    case False
    with 1 show ?thesis
      by (subst show_nat.simps) (simp add: read_from_snoc digit_value_digit)
  qed
qed

lemma read_decimal_pad: "read_decimal (pad k n) = Some n"
  by (simp add: read_decimal_def pad_def read_from_zeros digit_value_def read_from_show_nat
      show_nat_nonempty)

lemma length_show_nat: "0 < k \<Longrightarrow> n < 10 ^ k \<Longrightarrow> length (show_nat n) \<le> k"
proof (induction n arbitrary: k rule: show_nat.induct)
  case (1 n)
  show ?case
  proof (cases "n < 10")
    case True
    with 1(2) show ?thesis
      by (subst show_nat.simps) simp
  next
    case False
    from 1(2) obtain j where k: "k = Suc j" by (cases k) auto
    have "0 < j"
    proof (rule ccontr)
      assume "\<not> 0 < j"
      with k 1(3) False show False by simp
    qed
    moreover from 1(3) k have "n div 10 < 10 ^ j"
      by (simp add: less_mult_imp_div_less mult.commute)
    ultimately have "length (show_nat (n div 10)) \<le> j"
      using 1(1) False by simp
    with False k show ?thesis
      by (subst show_nat.simps) simp
  qed
qed

lemma length_pad: "0 < k \<Longrightarrow> n < 10 ^ k \<Longrightarrow> length (pad k n) = k"
  using length_show_nat[of k n] by (simp add: pad_def)

lemma pad_digits: "set (pad k n) \<subseteq> set digit_chars"
  using show_nat_digits[of n] by (auto simp: pad_def digit_chars_def)

subsection \<open>Identifiers of the instance\<close>

lemma hex_table: "map hex_value hex_chars = map Some [0..<16]"
  by (simp add: hex_chars_def hex_value_def upt_rec)

lemma hex_chars_all:
  assumes "n < 16"
  shows "hex_value (hex_chars ! n) = Some n" and "hex_chars ! n \<noteq> CHR ''|''"
proof -
  have l: "length hex_chars = 16" by (simp add: hex_chars_def)
  from assms l have "hex_value (hex_chars ! n) = map hex_value hex_chars ! n" by simp
  also have "\<dots> = Some n" using assms unfolding hex_table by simp
  finally show "hex_value (hex_chars ! n) = Some n" .
  have "hex_chars ! n \<in> set hex_chars" using assms l by simp
  moreover have "CHR ''|'' \<notin> set hex_chars" by (simp add: hex_chars_def)
  ultimately show "hex_chars ! n \<noteq> CHR ''|''" by metis
qed

lemma read_from_show_hex: "read_from hex_value 16 0 (show_hex n) = Some n"
proof (induction n rule: show_hex.induct)
  case (1 n)
  show ?case
  proof (cases "n < 16")
    case True
    then show ?thesis
      by (subst show_hex.simps) (simp add: hex_chars_all)
  next
    case False
    with 1 show ?thesis
      by (subst show_hex.simps) (simp add: read_from_snoc hex_chars_all)
  qed
qed

lemma show_hex_nonempty: "show_hex n \<noteq> []"
  by (subst show_hex.simps) simp

lemma show_hex_chars: "CHR ''|'' \<notin> set (show_hex n)"
proof (induction n rule: show_hex.induct)
  case (1 n)
  show ?case
  proof (cases "n < 16")
    case True
    then show ?thesis
      using hex_chars_all(2)[of n] by (subst show_hex.simps) auto
  next
    case False
    with 1 show ?thesis
      using hex_chars_all(2)[of "n mod 16"] by (subst show_hex.simps) auto
  qed
qed

lemma length_show_hex: "0 < k \<Longrightarrow> n < 16 ^ k \<Longrightarrow> length (show_hex n) \<le> k"
proof (induction n arbitrary: k rule: show_hex.induct)
  case (1 n)
  show ?case
  proof (cases "n < 16")
    case True
    with 1(2) show ?thesis
      by (subst show_hex.simps) simp
  next
    case False
    from 1(2) obtain j where k: "k = Suc j" by (cases k) auto
    have "0 < j"
    proof (rule ccontr)
      assume "\<not> 0 < j"
      with k 1(3) False show False by simp
    qed
    moreover from 1(3) k have "n div 16 < 16 ^ j"
      by (simp add: less_mult_imp_div_less mult.commute)
    ultimately have "length (show_hex (n div 16)) \<le> j"
      using 1(1) False by simp
    with False k show ?thesis
      by (subst show_hex.simps) simp
  qed
qed

lemma node_oid_round_trip:
  assumes "i < 16 ^ 24"
  shows "node_oid_parse (node_oid_toString i) = Some i"
    and "node_oid_toString i \<noteq> []"
    and "CHR ''|'' \<notin> set (node_oid_toString i)"
proof -
  have "length (show_hex i) \<le> 24"
    using assms by (intro length_show_hex) simp_all
  then have "length (node_oid_toString i) = 24"
    by (simp add: node_oid_toString_def)
  moreover have "read_hex (node_oid_toString i) = Some i"
    by (simp add: read_hex_def node_oid_toString_def read_from_zeros hex_value_def
        read_from_show_hex show_hex_nonempty)
  ultimately show "node_oid_parse (node_oid_toString i) = Some i"
    by (simp add: node_oid_parse_def)
  show "node_oid_toString i \<noteq> []"
    by (simp add: node_oid_toString_def show_hex_nonempty)
  show "CHR ''|'' \<notin> set (node_oid_toString i)"
    using show_hex_chars[of i] by (auto simp: node_oid_toString_def)
qed

subsection \<open>Base64 of the instance\<close>

lemma b64_table: "map b64_value b64_chars = map Some [0..<64]"
  by (simp add: b64_chars_def b64_value_def upt_rec)

lemma b64_chars_all:
  assumes "v < 64"
  shows "b64_value (b64_chars ! v) = Some v" and "b64_chars ! v \<noteq> CHR ''=''"
proof -
  have l: "length b64_chars = 64" by (simp add: b64_chars_def)
  from assms l have "b64_value (b64_chars ! v) = map b64_value b64_chars ! v" by simp
  also have "\<dots> = Some v" using assms unfolding b64_table by simp
  finally show "b64_value (b64_chars ! v) = Some v" .
  have "b64_chars ! v \<in> set b64_chars" using assms l by simp
  moreover have "CHR ''='' \<notin> set b64_chars" by (simp add: b64_chars_def)
  ultimately show "b64_chars ! v \<noteq> CHR ''=''" by metis
qed

lemma b64_values_char:
  "v < 64 \<Longrightarrow> b64_values (b64_chars ! v # cs) = v # b64_values cs"
  by (simp add: b64_chars_all)

lemma sextets:
  fixes a b c :: nat
  assumes "a < 256" "b < 256" "c < 256"
  shows "a div 4 < 64" "a mod 4 * 16 + b div 16 < 64" "b mod 16 * 4 + c div 64 < 64"
    "c mod 64 < 64" "b mod 16 * 4 < 64" "a mod 4 * 16 < 64"
proof -
  have "a mod 4 < 4" "b mod 16 < 16" by simp_all
  moreover have "b div 16 < 16" "c div 64 < 4" "a div 4 < 64"
    using assms by (simp_all add: div_less_iff_less_mult)
  ultimately show "a div 4 < 64" "a mod 4 * 16 + b div 16 < 64"
    "b mod 16 * 4 + c div 64 < 64" "b mod 16 * 4 < 64" "a mod 4 * 16 < 64"
    by linarith+
  show "c mod 64 < 64" by simp
qed

lemma octets:
  fixes a b c :: nat
  assumes "a < 256" "b < 256" "c < 256"
  shows "a div 4 * 4 + (a mod 4 * 16 + b div 16) div 16 = a"
    "(a mod 4 * 16 + b div 16) mod 16 * 16 + (b mod 16 * 4 + c div 64) div 4 = b"
    "(b mod 16 * 4 + c div 64) mod 4 * 64 + c mod 64 = c"
    "(a mod 4 * 16 + b div 16) mod 16 * 16 + (b mod 16 * 4) div 4 = b"
    "a div 4 * 4 + (a mod 4 * 16) div 16 = a"
  using assms by (simp_all add: div_mult2_eq[symmetric] div_less_iff_less_mult)

lemma b64_bytes_round_trip:
  "\<forall>x \<in> set bs. x < 256 \<Longrightarrow> b64_decode_values (b64_values (b64_encode_bytes bs)) = bs"
proof (induction bs rule: b64_encode_bytes.induct)
  case (1 a b c rest)
  then have r: "a < 256" "b < 256" "c < 256" by simp_all
  have "b64_values (b64_encode_bytes (a # b # c # rest))
        = a div 4 # (a mod 4 * 16 + b div 16) # (b mod 16 * 4 + c div 64) # c mod 64
            # b64_values (b64_encode_bytes rest)"
    by (simp add: b64_values_char sextets[OF r] del: b64_values.simps)
  with 1 show ?case
    by (simp only: b64_decode_values.simps octets[OF r]) simp
next
  case (2 a b)
  then have r: "a < 256" "b < 256" "(0::nat) < 256" by simp_all
  have "b64_values [CHR ''='']  = []" by simp
  then have "b64_values (b64_encode_bytes [a, b])
             = [a div 4, a mod 4 * 16 + b div 16, b mod 16 * 4]"
    by (simp add: b64_values_char sextets[OF r] del: b64_values.simps)
  then show ?case
    by (simp only: b64_decode_values.simps octets[OF r])
next
  case (3 a)
  then have r: "a < 256" "(0::nat) < 256" "(0::nat) < 256" by simp_all
  have "b64_values [CHR ''='', CHR ''='']  = []" by simp
  then have "b64_values (b64_encode_bytes [a]) = [a div 4, a mod 4 * 16]"
    by (simp add: b64_values_char sextets[OF r] del: b64_values.simps)
  then show ?case
    by (simp only: b64_decode_values.simps octets[OF r])
next
  case 4
  show ?case by simp
qed

lemma node_base64_round_trip: "node_base64_decode (node_base64_encode s) = s"
proof -
  have "\<forall>x \<in> set (map of_char s :: nat list). x < 256"
    by (simp add: nat_of_char_less_256)
  from b64_bytes_round_trip[OF this] show ?thesis
    by (simp add: node_base64_decode_def node_base64_encode_def comp_def map_idI)
qed

subsection \<open>The calendar of the instance\<close>

lemma div_step:
  fixes y k :: int
  assumes "0 < k"
  shows "(y + 1) div k = y div k + (if (y + 1) mod k = 0 then 1 else 0)"
proof (cases "y mod k + 1 < k")
  case True
  have "y + 1 = k * (y div k) + (y mod k + 1)" by simp
  from int_div_pos_eq[OF this _ True] int_mod_pos_eq[OF this _ True] assms
  have "(y + 1) div k = y div k" "(y + 1) mod k = y mod k + 1"
    by (simp_all add: add_nonneg_nonneg)
  moreover have "0 \<le> y mod k" using assms by simp
  ultimately show ?thesis by simp
next
  case False
  moreover have "y mod k < k" using assms by simp
  ultimately have r: "y mod k + 1 = k" by linarith
  have "y + 1 = k * (y div k) + (y mod k + 1)" by simp
  also have "\<dots> = k * (y div k + 1) + 0" using r by (simp add: algebra_simps)
  finally have e: "y + 1 = k * (y div k + 1) + 0" .
  from int_div_pos_eq[OF e] int_mod_pos_eq[OF e] assms
  show ?thesis by simp
qed

lemma year_length:
  "365 \<le> days_before_year (y + 1) - days_before_year y"
  "days_before_year (y + 1) - days_before_year y \<le> 366"
proof -
  have "(100::int) dvd 400" "(4::int) dvd 100" by simp_all
  then have a: "(y + 1) mod 400 = 0 \<Longrightarrow> (y + 1) mod 100 = 0"
    and b: "(y + 1) mod 100 = 0 \<Longrightarrow> (y + 1) mod 4 = 0"
    by (meson dvd_trans mod_0_imp_dvd dvd_imp_mod_0)+
  show "365 \<le> days_before_year (y + 1) - days_before_year y"
    "days_before_year (y + 1) - days_before_year y \<le> 366"
    using a b by (auto simp: days_before_year_def div_step)
qed

lemma days_before_year_mono: "y \<le> z \<Longrightarrow> days_before_year y \<le> days_before_year z"
proof (induction "nat (z - y)" arbitrary: z)
  case 0
  then show ?case by simp
next
  case (Suc k)
  then have "k = nat ((z - 1) - y)" "y \<le> z - 1" by linarith+
  then have "days_before_year y \<le> days_before_year (z - 1)"
    using Suc.hyps(1) by blast
  moreover have "days_before_year (z - 1) \<le> days_before_year z"
    using year_length(1)[of "z - 1"] by simp
  ultimately show ?case by linarith
qed

lemma quotient_bounds:
  fixes x k :: int
  assumes "0 < k"
  shows "k * (x div k) \<le> x" "x < k * (x div k) + k"
proof -
  have "x = k * (x div k) + x mod k" by simp
  moreover have "0 \<le> x mod k" "x mod k < k" using assms by simp_all
  ultimately show "k * (x div k) \<le> x" "x < k * (x div k) + k" by linarith+
qed

lemma days_before_year_bounds:
  assumes "0 \<le> y"
  shows "365 * y \<le> days_before_year y" "days_before_year y \<le> 366 * y"
proof -
  define a b c where "a = y div 4" and "b = y div 100" and "c = y div 400"
  have "b \<le> a" "c \<le> b" "0 \<le> c"
    using assms unfolding a_def b_def c_def
    by (simp_all add: zdiv_mono2 pos_imp_zdiv_nonneg_iff)
  moreover have "4 * a \<le> y"
    unfolding a_def by (rule quotient_bounds(1)) simp
  ultimately show "365 * y \<le> days_before_year y" "days_before_year y \<le> 366 * y"
    using assms unfolding days_before_year_def a_def[symmetric] b_def[symmetric] c_def[symmetric]
    by linarith+
qed

lemma year_search_spec:
  "days_before_year y \<le> n \<Longrightarrow> n < days_before_year (y + int f + 1)
    \<Longrightarrow> days_before_year (year_search f n y) \<le> n
        \<and> n < days_before_year (year_search f n y + 1)"
proof (induction f arbitrary: y)
  case 0
  then show ?case by simp
next
  case (Suc f)
  show ?case
  proof (cases "days_before_year (y + 1) \<le> n")
    case True
    moreover have "n < days_before_year (y + 1 + int f + 1)"
      using Suc.prems(2) by (simp add: add.commute add.left_commute)
    ultimately show ?thesis using Suc.IH[of "y + 1"] by simp
  next
    case False
    with Suc.prems show ?thesis by simp
  qed
qed

lemma march_year_spec:
  assumes "0 \<le> n"
  shows "days_before_year (march_year n) \<le> n" "n < days_before_year (march_year n + 1)"
proof -
  have le: "n div 366 \<le> n div 365"
    using assms by (intro zdiv_mono2) simp_all
  have lo: "0 \<le> n div 366" using assms by (simp add: pos_imp_zdiv_nonneg_iff)
  have start: "days_before_year (n div 366) \<le> n"
    by (rule order_trans[OF days_before_year_bounds(2)[OF lo]], rule quotient_bounds(1)) simp
  have "0 \<le> n div 365 + 1" using assms by (simp add: pos_imp_zdiv_nonneg_iff)
  from days_before_year_bounds(1)[OF this]
  have "365 * (n div 365) + 365 \<le> days_before_year (n div 365 + 1)"
    by (simp add: algebra_simps)
  then have stop: "n < days_before_year (n div 365 + 1)"
    by (rule less_le_trans[rotated], intro quotient_bounds(2)) simp
  have m: "min (n div 365) (n div 366) = n div 366" "max (n div 365) (n div 366) = n div 365"
    using le by simp_all
  have "n div 366 + int (nat (n div 365 - n div 366)) + 1 = n div 365 + 1"
    using le by simp
  with stop have "n < days_before_year (n div 366 + int (nat (n div 365 - n div 366)) + 1)"
    by simp
  from year_search_spec[OF start this]
  show "days_before_year (march_year n) \<le> n" "n < days_before_year (march_year n + 1)"
    by (simp_all add: march_year_def m)
qed

lemma month_index_spec:
  assumes "0 \<le> doy" "doy \<le> 365"
  shows "0 \<le> month_index doy" "month_index doy \<le> 11"
    "month_offset (month_index doy) \<le> doy" "doy < month_offset (month_index doy) + 31"
proof -
  define mp where "mp = month_index doy"
  note a = quotient_bounds[where k = 153 and x = "5 * doy + 2", OF zero_less_numeral,
      folded month_index_def, folded mp_def]
  note b = quotient_bounds[where k = 5 and x = "153 * mp + 2", OF zero_less_numeral,
      folded month_offset_def]
  show "0 \<le> month_index doy" "month_index doy \<le> 11"
    "month_offset (month_index doy) \<le> doy" "doy < month_offset (month_index doy) + 31"
    using a b assms unfolding mp_def[symmetric] by linarith+
qed

lemma civil_round_trip:
  assumes "- 719468 \<le> z" "z \<le> 2932896"
  shows "case civil_from_days z of (y, m, d) \<Rightarrow>
           0 \<le> y \<and> y \<le> 9999 \<and> 1 \<le> m \<and> m \<le> 12 \<and> 1 \<le> d \<and> d \<le> 31
           \<and> days_from_civil y m d = z"
proof -
  define n where "n = z + 719468"
  define y where "y = march_year n"
  define doy where "doy = n - days_before_year y"
  define mp where "mp = month_index doy"
  have n: "0 \<le> n" "n \<le> 3652364" using assms by (simp_all add: n_def)
  from march_year_spec[OF n(1)] have y: "days_before_year y \<le> n" "n < days_before_year (y + 1)"
    by (simp_all add: y_def)
  have y0: "0 \<le> y"
  proof (rule ccontr)
    assume "\<not> 0 \<le> y"
    then have "y + 1 \<le> 0" by simp
    from days_before_year_mono[OF this] y(2) n(1) show False
      by (simp add: days_before_year_def)
  qed
  have doy: "0 \<le> doy" "doy \<le> 365"
    using y year_length(2)[of y] by (simp_all add: doy_def)
  have d10000: "days_before_year 10000 = 3652425" "days_before_year 9999 = 3652059"
    by (simp_all add: days_before_year_def)
  have y9: "y \<le> 9999"
  proof (rule ccontr)
    assume "\<not> y \<le> 9999"
    then have "10000 \<le> y" by simp
    from days_before_year_mono[OF this] y(1) n(2) d10000 show False by simp
  qed
  note mi = month_index_spec[OF doy, folded mp_def]
  have last: "y = 9999 \<Longrightarrow> mp < 10"
  proof -
    assume "y = 9999"
    with n(2) d10000 have "doy \<le> 305" by (simp add: doy_def)
    with quotient_bounds(1)[where k = 153 and x = "5 * doy + 2", OF zero_less_numeral]
    show "mp < 10"
      unfolding mp_def month_index_def by linarith
  qed
  have cfd: "civil_from_days z
             = (y + (if (if mp < 10 then mp + 3 else mp - 9) \<le> 2 then 1 else 0),
                nat (if mp < 10 then mp + 3 else mp - 9), nat (doy - month_offset mp + 1))"
    by (simp add: civil_from_days_def Let_def n_def y_def doy_def mp_def)
  define d where "d = doy - month_offset mp + 1"
  have d: "1 \<le> d" "d \<le> 31" "int (nat d) = d" using mi by (simp_all add: d_def)
  have dn: "1 \<le> nat d" "nat d \<le> 31" using d by linarith+
  have total: "days_before_year y + month_offset mp + d - 1 - 719468 = z"
    by (simp add: d_def doy_def n_def)
  show ?thesis
  proof (cases "mp < 10")
    case True
    then have m: "int (nat (mp + 3)) = mp + 3" "\<not> nat (mp + 3) \<le> 2" "2 < nat (mp + 3)"
      "1 \<le> nat (mp + 3)" "nat (mp + 3) \<le> 12"
      using mi by linarith+
    show ?thesis
      unfolding cfd d_def[symmetric] using True y0 y9 dn total mi(1,2) d(1,2)
      by (simp add: days_from_civil_def m d) linarith?
  next
    case False
    with last have y8: "y \<le> 9998" using y9 by force
    from False have m: "int (nat (mp - 9)) + 9 = mp" "nat (mp - 9) \<le> 2" "\<not> 2 < nat (mp - 9)"
      "1 \<le> nat (mp - 9)" "nat (mp - 9) \<le> 12" "mp - 9 \<le> 2"
      using mi by linarith+
    show ?thesis
      unfolding cfd d_def[symmetric] using False y0 y8 dn total mi(1,2) d(1,2)
      by (simp add: days_from_civil_def m d) linarith?
  qed
qed

lemma time_of_day:
  fixes r :: int
  assumes "0 \<le> r" "r < 86400000"
  shows "0 \<le> r div 3600000" "r div 3600000 \<le> 23"
    "0 \<le> r div 60000 mod 60" "r div 60000 mod 60 \<le> 59"
    "0 \<le> r div 1000 mod 60" "r div 1000 mod 60 \<le> 59"
    "0 \<le> r mod 1000" "r mod 1000 \<le> 999"
    "r div 3600000 * 3600000 + r div 60000 mod 60 * 60000 + r div 1000 mod 60 * 1000
       + r mod 1000 = r"
proof -
  have e1: "r div 60000 = r div 1000 div 60"
    using zdiv_zmult2_eq[of 60 r 1000] by simp
  have e2: "r div 3600000 = r div 60000 div 60"
    using zdiv_zmult2_eq[of 60 r 60000] by simp
  have m1: "r div 1000 mod 60 = r div 1000 - 60 * (r div 60000)"
    unfolding e1 by (simp add: minus_mult_div_eq_mod)
  have m2: "r div 60000 mod 60 = r div 60000 - 60 * (r div 3600000)"
    unfolding e2 by (simp add: minus_mult_div_eq_mod)
  have m3: "r mod 1000 = r - 1000 * (r div 1000)"
    by (simp add: minus_mult_div_eq_mod)
  show "r div 3600000 * 3600000 + r div 60000 mod 60 * 60000 + r div 1000 mod 60 * 1000
       + r mod 1000 = r"
    unfolding m1 m2 m3 by simp
  show "0 \<le> r div 3600000" using assms by (simp add: pos_imp_zdiv_nonneg_iff)
  show "r div 3600000 \<le> 23"
    using quotient_bounds(1)[where k = 3600000 and x = r, OF zero_less_numeral] assms by linarith
  show "0 \<le> r div 60000 mod 60" "r div 60000 mod 60 \<le> 59"
    "0 \<le> r div 1000 mod 60" "r div 1000 mod 60 \<le> 59"
    "0 \<le> r mod 1000" "r mod 1000 \<le> 999"
    using pos_mod_bound[of 60 "r div 60000"] pos_mod_bound[of 60 "r div 1000"]
      pos_mod_bound[of 1000 r]
    by simp_all
qed

subsection \<open>Dates of the instance\<close>

lemma iso_parts:
  assumes "length A = 4" "length B = 2" "length C = 2" "length D = 2" "length E = 2"
    "length F = 2" "length G = 3"
  defines "s \<equiv> A @ ''-'' @ B @ ''-'' @ C @ ''T'' @ D @ '':'' @ E @ '':'' @ F @ ''.'' @ G @ ''Z''"
  shows "iso_shape s" "take 4 s = A" "take 2 (drop 5 s) = B" "take 2 (drop 8 s) = C"
    "take 2 (drop 11 s) = D" "take 2 (drop 14 s) = E" "take 2 (drop 17 s) = F"
    "take 3 (drop 20 s) = G"
  using assms(1-7) unfolding s_def iso_shape_def by (simp_all add: nth_append)

lemma node_date_round_trip:
  assumes "- 62162035200000 \<le> t" "t \<le> 253402300799999"
  shows "node_date_parse (node_toISOString t) = Some t"
    and "CHR ''|'' \<notin> set (node_toISOString t)"
    and "node_toISOString t \<noteq> []"
proof -
  define z r where "z = t div 86400000" and "r = t mod 86400000"
  have t: "t = z * 86400000 + r" by (simp add: z_def r_def)
  have r: "0 \<le> r" "r < 86400000" by (simp_all add: r_def)
  from t r assms have z: "- 719468 \<le> z" "z \<le> 2932896" by linarith+
  obtain y m d where cfd: "civil_from_days z = (y, m, d)" by (cases "civil_from_days z")
  with civil_round_trip[OF z]
  have ymd: "0 \<le> y" "y \<le> 9999" "1 \<le> m" "m \<le> 12" "1 \<le> d" "d \<le> 31"
    "days_from_civil y m d = z"
    by simp_all
  define h mi sec ms where "h = nat (r div 3600000)" and "mi = nat (r div 60000 mod 60)"
    and "sec = nat (r div 1000 mod 60)" and "ms = nat (r mod 1000)"
  note tod = time_of_day[OF r]
  have nb: "\<And>x k. x \<le> int k \<Longrightarrow> nat x \<le> k" by linarith
  have hms: "h \<le> 23" "mi \<le> 59" "sec \<le> 59" "ms \<le> 999"
    unfolding h_def mi_def sec_def ms_def by (rule nb, simp only: of_nat_numeral tod)+
  have "int h = r div 3600000" "int mi = r div 60000 mod 60" "int sec = r div 1000 mod 60"
    "int ms = r mod 1000"
    unfolding h_def mi_def sec_def ms_def by (rule nat_0_le, rule tod)+
  then have sum: "int h * 3600000 + int mi * 60000 + int sec * 1000 + int ms = r"
    using tod(9) by (simp only:)
  let ?A = "pad 4 (nat y)" and ?B = "pad 2 m" and ?C = "pad 2 d" and ?D = "pad 2 h"
    and ?E = "pad 2 mi" and ?F = "pad 2 sec" and ?G = "pad 3 ms"
  have iso: "node_toISOString t
             = ?A @ ''-'' @ ?B @ ''-'' @ ?C @ ''T'' @ ?D @ '':'' @ ?E @ '':'' @ ?F @ ''.'' @ ?G @ ''Z''"
    using ymd(1,2)
    by (simp add: node_toISOString_def z_def[symmetric] r_def[symmetric] cfd show_year_def
        show_time_def h_def mi_def sec_def ms_def)
  have len: "length ?A = 4" "length ?B = 2" "length ?C = 2" "length ?D = 2" "length ?E = 2"
    "length ?F = 2" "length ?G = 3"
    using ymd hms by (simp_all add: length_pad)
  note parts = iso_parts[OF len]
  have "node_date_parse (node_toISOString t) = make_time (nat y) m d h mi sec ms"
    unfolding iso node_date_parse_def by (simp only: parts read_decimal_pad if_True option.case)
  also have "\<dots> = Some (z * 86400000 + r)"
    using ymd hms sum by (simp add: make_time_def)
  finally show "node_date_parse (node_toISOString t) = Some t" using t by simp
  have "CHR ''|'' \<notin> set digit_chars" by (simp add: digit_chars_def)
  with pad_digits have "\<And>k n. CHR ''|'' \<notin> set (pad k n)" by blast
  then show "CHR ''|'' \<notin> set (node_toISOString t)" unfolding iso by simp
  show "node_toISOString t \<noteq> []" unfolding iso by simp
qed

subsection \<open>The instance keeps the contract of the cursor codec\<close>

text \<open>
  For every instant from 0000-03-01 to the end of the year 9999 and every id of
  twelve bytes, the instance round-trips the pair, and the cursor of a record with
  such a date and id does its work.
\<close>

lemma node_codec_contract:
  assumes "- 62162035200000 \<le> ts" "ts \<le> 253402300799999" "i < 16 ^ 24"
  shows "codec_contract node_runtime ts i"
  by (simp add: codec_contract_def node_runtime_def node_base64_round_trip
      node_date_round_trip[OF assms(1,2)] node_oid_round_trip[OF assms(3)])

lemma node_cursor_ok:
  assumes "- 62162035200000 \<le> addedAt x" "addedAt x \<le> 253402300799999"
    and "item_id x < 16 ^ 24"
  shows "cursor_ok node_runtime x"
proof -
  let ?c = "encodeCursor node_runtime (addedAt x) (item_id x)"
  have d: "decodeCursorSafe node_runtime ?c = Inr (addedAt x, item_id x)"
    by (rule decode_encode[OF node_codec_contract[OF assms]])
  have "decodeCursorSafe node_runtime [] = Inl invalid_cursor"
    by (simp add: decodeCursorSafe_def node_runtime_def node_base64_decode_def)
  with d have "?c \<noteq> []" by auto
  moreover have "?c \<noteq> ''start''"
  proof
    assume "?c = ''start''"
    then have "length ?c = 5" by simp
    with encodeCursor_length[of "addedAt x" "item_id x"] have "(4::nat) dvd 5" by simp
    then show False by presburger
  qed
  ultimately show ?thesis using d by (simp add: cursor_ok_def)
qed

subsection \<open>A page cached for another request\<close>

text \<open>
  C1. The claim is that chaining the pages of List returns the \<open>N\<close> records of the
  user, each exactly once. The key of a page holds the version, the limit and the
  cursor, but not the content type. The user with the three records lists the shows,
  two per page: one show, no further page. The unfiltered call with the same limit
  then has the same key, finds that page and returns it, and the chain ends there
  with one of the three records. Without the filtered call before it, the same chain
  returns the three.
\<close>

theorem C1_filtered_page_ends_chain:
  "mylist world_shows_listed = [first_item, show_item, second_item]
   \<and> countDocuments (mylist world_shows_listed) 1 = 3
   \<and> fst (getList node_runtime default_config world_three (oid_text 1) shows_two_per_page
             False) = Inr shows_page
   \<and> request_key default_config (cache world_shows_listed) (oid_text 1) two_per_page
       = request_key default_config (cache world_three) (oid_text 1) shows_two_per_page
   \<and> list_all_pages 4 node_runtime default_config world_shows_listed (oid_text 1)
         two_per_page False = Some (Inr [show_item])
   \<and> list_all_pages 4 node_runtime default_config world_three (oid_text 1)
         two_per_page False = Some (Inr [second_item, show_item, first_item])"
proof -
  have "mylist world_shows_listed = [first_item, show_item, second_item]"
    by code_simp
  moreover have "countDocuments (mylist world_shows_listed) 1 = 3"
    by code_simp
  moreover have "fst (getList node_runtime default_config world_three (oid_text 1)
                        shows_two_per_page False) = Inr shows_page"
    by code_simp
  moreover have "request_key default_config (cache world_shows_listed) (oid_text 1) two_per_page
       = request_key default_config (cache world_three) (oid_text 1) shows_two_per_page"
    by code_simp
  moreover have "list_all_pages 4 node_runtime default_config world_shows_listed (oid_text 1)
         two_per_page False = Some (Inr [show_item])"
    by code_simp
  moreover have "list_all_pages 4 node_runtime default_config world_three (oid_text 1)
         two_per_page False = Some (Inr [second_item, show_item, first_item])"
    by code_simp
  ultimately show ?thesis by simp
qed

text \<open>
  C9. The claim is that every List call with \<open>includeTotal\<close> attaches the number of all
  records of the user, while the items follow the content type asked for. Whether the
  total is asked for is not part of the page key either. The user with the two
  records lists the five newest without a total, which caches that page; the call for
  the movies with the total has the same key and is answered with the cached page:
  no total, and the show among the items. Read from the store, the answer is the one
  movie and the total 2.
\<close>

theorem C9_cached_page_has_no_total:
  "fst (getList node_runtime default_config world_two (oid_text 1) five_newest False)
     = Inr newest_page
   \<and> fst (getList node_runtime default_config world_two_listed (oid_text 1) five_movies True)
     = Inr newest_page
   \<and> total_count newest_page = None
   \<and> items newest_page = [show_item, first_item]
   \<and> contentType show_item = TvShow
   \<and> countDocuments (mylist world_two_listed) 1 = 2
   \<and> read_store node_runtime (mylist world_two_listed) 1 five_movies 5 True = Inr movie_page"
proof -
  have "fst (getList node_runtime default_config world_two (oid_text 1) five_newest False)
        = Inr newest_page"
    by code_simp
  moreover have "fst (getList node_runtime default_config world_two_listed (oid_text 1)
                        five_movies True) = Inr newest_page"
    by code_simp
  moreover have "countDocuments (mylist world_two_listed) 1 = 2"
    by code_simp
  moreover have "read_store node_runtime (mylist world_two_listed) 1 five_movies 5 True
                 = Inr movie_page"
    by code_simp
  ultimately show ?thesis
    by (simp add: newest_page_def show_item_def)
qed

subsection \<open>A counter that restarts\<close>

text \<open>
  Time alone takes pages away; as long as the counter of the user does not run out,
  nothing comes to lie ahead of it. A Remove keeps that as well.
\<close>

lemma elapse_fields:
  "fails (elapse d r) = fails r"
  "pages (elapse d r) k = None \<or> pages (elapse d r) k = pages r k"
  by (simp_all add: elapse_def)

lemma current_version_elapse:
  assumes "\<forall>t. version_ttl r (userVersionKey uid) = Some t \<longrightarrow> d < t"
  shows "current_version (elapse d r) uid = current_version r uid"
  using assms by (auto simp: current_version_def elapse_def split: option.splits)

lemma no_pages_ahead_elapse:
  assumes "no_pages_ahead r uid"
    and "\<forall>t. version_ttl r (userVersionKey uid) = Some t \<longrightarrow> d < t"
  shows "no_pages_ahead (elapse d r) uid"
  using assms(1) elapse_fields(2)[of d r]
  unfolding no_pages_ahead_def current_version_elapse[OF assms(2)]
  by metis

lemma no_pages_ahead_removeFromList:
  "no_pages_ahead (cache w) uid
    \<Longrightarrow> no_pages_ahead (cache (snd (removeFromList rt w uid cid))) uid"
  by (auto simp: removeFromList_def intro: no_pages_ahead_bump split: option.splits)

text \<open>
  C2. The claim is that once a List result is cached under version \<open>V\<close> and an Add or
  a Remove has bumped the counter to \<open>V + 1\<close>, a later List call of the same request
  reads the store. The counter lives thirty days from its last bump, a List call
  does not renew it, and an absent counter restarts at 0. The user added one movie
  (version 1) and lists thirty seconds before the counter runs out: the page is
  cached under version 1 for sixty seconds. Thirty seconds later the counter is gone
  and the page is not. The next List call restarts the counter at 0 and caches the
  page under version 0; an Add succeeds and bumps the counter to 1; and the List call
  after it finds, under version 1, the page of the time before: it is answered with
  the one movie, while the store holds two.
\<close>

theorem C2_restarted_counter_serves_stale_page:
  "versions (cache world_expired) (userVersionKey (oid_text 1)) = None
   \<and> pages (cache world_expired) (pageCacheKey (oid_text 1) ''1'' 5 None) = Some first_page
   \<and> current_version (cache world_restarted) (oid_text 1) = 0
   \<and> pages (cache world_restarted)
        (request_key default_config (cache world_restarted) (oid_text 1) five_newest)
       = Some first_page
   \<and> fst (addToList node_runtime world_restarted (oid_text 1) (movie_payload 11)
             1706659200000 102) = Inr late_item
   \<and> current_version (cache world_readded) (oid_text 1) = 1
   \<and> fst (getList node_runtime default_config world_readded (oid_text 1) five_newest False)
       = Inr first_page
   \<and> read_store node_runtime (mylist world_readded) 1 five_newest 5 False
       = Inr \<lparr>items = [late_item, first_item], nextCursor = None, total_count = None\<rparr>"
proof -
  have "versions (cache world_expired) (userVersionKey (oid_text 1)) = None"
    by code_simp
  moreover have "pages (cache world_expired) (pageCacheKey (oid_text 1) ''1'' 5 None)
                 = Some first_page"
    by code_simp
  moreover have "current_version (cache world_restarted) (oid_text 1) = 0"
    by code_simp
  moreover have "pages (cache world_restarted)
        (request_key default_config (cache world_restarted) (oid_text 1) five_newest)
       = Some first_page"
    by code_simp
  moreover have "fst (addToList node_runtime world_restarted (oid_text 1) (movie_payload 11)
                        1706659200000 102) = Inr late_item"
    by code_simp
  moreover have "current_version (cache world_readded) (oid_text 1) = 1"
    by code_simp
  moreover have "fst (getList node_runtime default_config world_readded (oid_text 1)
                        five_newest False) = Inr first_page"
    by code_simp
  moreover have "read_store node_runtime (mylist world_readded) 1 five_newest 5 False
       = Inr \<lparr>items = [late_item, first_item], nextCursor = None, total_count = None\<rparr>"
    by code_simp
  ultimately show ?thesis by simp
qed

end
